theory Spec2Isabelle
  imports Main
begin

section \<open>The host framework: state slots, refs and effects\<close>

text \<open>
  The hooks of \<^verbatim>\<open>src/src/hooks.ts\<close> are written against three primitives of the
  host framework. A hook instance keeps its cells between the calls of the hook
  function; before the first call there are none, which is \<open>None\<close> below.
  \<^item> \<^verbatim>\<open>useState(init)\<close> yields the initial state on the first call and the content of
    the slot on every later call, where the argument is ignored. When \<open>init\<close> is a
    function the host calls it, with no argument, and the initial state is what it
    returns; any other argument is the initial state itself.
  \<^item> The setter of a slot treats its argument the same way: a function is called with
    the current state and the next state is what it returns; any other argument is the
    next state itself.
  \<^item> \<^verbatim>\<open>useRef(init)\<close> yields \<open>init\<close> on the first call and the content of the mutable
    cell \<^verbatim>\<open>ref.current\<close> on every later call; it never calls its argument.
  \<^item> \<^verbatim>\<open>useEffect(f, deps)\<close> runs \<open>f\<close> after the call of the hook function has
    returned, on the first call and on every later call whose \<open>deps\<close> differ from
    those of the previous call; the cleanup returned by the previous run of \<open>f\<close>
    runs first. Dependencies are compared with \<^verbatim>\<open>Object.is\<close>, which is the first
    argument of \<open>deps_changed\<close>.

  A hook that is generic in \<^verbatim>\<open>T\<close> is modelled over a type \<open>'a\<close> of the values of the
  language as \<^verbatim>\<open>Object.is\<close> tells them apart: a primitive is its value, an object, an
  array or a function is its identity, so that two arrays of equal content are two
  different elements of \<open>'a\<close>, and equality on \<open>'a\<close> is \<^verbatim>\<open>Object.is\<close>. Which elements
  are functions, and what such a function returns for an argument (\<open>None\<close> when it is
  called without one), is given by a parameter \<open>call\<close> of the hook; \<open>as_arg\<close> presents a
  value to \<^verbatim>\<open>useState\<close> or to a setter accordingly.
\<close>

datatype 's state_arg = Value 's | Compute "'s option \<Rightarrow> 's"

definition useState :: "'s option \<Rightarrow> 's state_arg \<Rightarrow> 's" where
  "useState slot init =
     (case slot of
        Some v \<Rightarrow> v
      | None \<Rightarrow> (case init of Value v \<Rightarrow> v | Compute f \<Rightarrow> f None))"

definition setState :: "'s \<Rightarrow> 's state_arg \<Rightarrow> 's" where
  "setState prev arg = (case arg of Value v \<Rightarrow> v | Compute f \<Rightarrow> f (Some prev))"

definition as_arg :: "('a \<Rightarrow> ('a option \<Rightarrow> 'a) option) \<Rightarrow> 'a \<Rightarrow> 'a state_arg" where
  "as_arg call v = (case call v of None \<Rightarrow> Value v | Some f \<Rightarrow> Compute f)"

definition useRef :: "'s option \<Rightarrow> 's \<Rightarrow> 's" where
  "useRef cell init = (case cell of None \<Rightarrow> init | Some v \<Rightarrow> v)"

definition deps_changed :: "('d \<Rightarrow> 'd \<Rightarrow> bool) \<Rightarrow> 'd option \<Rightarrow> 'd \<Rightarrow> bool" where
  "deps_changed object_is last_deps deps =
     (case last_deps of None \<Rightarrow> True | Some d \<Rightarrow> \<not> object_is d deps)"


section \<open>usePrevious\<close>

text \<open>
  \<^verbatim>\<open>
  export function usePrevious<T>(value: T): T | undefined {
    const ref = useRef<T>(value);
    useEffect(() => { ref.current = value; }, [value]);
    return ref.current;
  }
  \<close>
  The result type \<^verbatim>\<open>T | undefined\<close> is \<open>'a option\<close>, with \<open>None\<close> for
  \<^verbatim>\<open>undefined\<close>.
\<close>

record 'a previous_cells =
  ref_current :: 'a
  previous_deps :: "'a option"

text \<open>The body of the hook function: the ref is created from \<open>value\<close> on the first
  call, and the function returns what the ref holds at that moment.\<close>

definition usePrevious_render ::
  "'a previous_cells option \<Rightarrow> 'a \<Rightarrow> 'a option \<times> 'a previous_cells" where
  "usePrevious_render cells value =
     (let ref = useRef (map_option ref_current cells) value;
          last_deps = (case cells of None \<Rightarrow> None | Some c \<Rightarrow> previous_deps c)
      in (Some ref, \<lparr>ref_current = ref, previous_deps = last_deps\<rparr>))"

text \<open>The effect, run after the body has returned.\<close>

definition usePrevious_effect :: "'a previous_cells \<Rightarrow> 'a \<Rightarrow> 'a previous_cells" where
  "usePrevious_effect c value =
     (if deps_changed (=) (previous_deps c) value
      then c\<lparr>ref_current := value, previous_deps := Some value\<rparr>
      else c)"

text \<open>One update cycle: the call of the hook function, then its effect.\<close>

definition usePrevious :: "'a previous_cells option \<Rightarrow> 'a \<Rightarrow> 'a option \<times> 'a previous_cells" where
  "usePrevious cells value =
     (let (result, c) = usePrevious_render cells value
      in (result, usePrevious_effect c value))"

text \<open>A sequence of update cycles; the results are collected in the order of the calls.\<close>

fun usePrevious_cycles ::
  "'a previous_cells option \<Rightarrow> 'a list \<Rightarrow> 'a option list" where
  "usePrevious_cycles cells [] = []"
| "usePrevious_cycles cells (v # vs) =
     (let (result, c) = usePrevious cells v in result # usePrevious_cycles (Some c) vs)"

text \<open>After a cycle the effect has run for the value of that cycle, so the
  dependencies recorded and the ref agree; this is what makes skipping the effect on
  an unchanged value harmless.\<close>

definition previous_settled :: "'a previous_cells \<Rightarrow> bool" where
  "previous_settled c = (previous_deps c = Some (ref_current c))"



section \<open>useFetch\<close>

text \<open>
  \<^verbatim>\<open>
  type FetchUrl = string | URL;

  export function useFetch<T>(url: FetchUrl) {
    const [data, setData] = useState<T | null>(null);
    const [loading, setLoading] = useState<boolean>(true);
    const [error, setError] = useState<Error | null>(null);
    useEffect(() => {
      const fetchData = async () => {
        setLoading(true);
        try {
          const response = await fetch(url);
          const result = await response.json();
          setData(result);
        } catch (err) { setError(err as Error); }
        finally { setLoading(false); }
      };
      fetchData();
    }, [url]);
    return { data, loading, error };
  }
  \<close>
  \<^verbatim>\<open>null\<close> is \<open>None\<close>. A URL is a text or a \<^verbatim>\<open>URL\<close> object, which has an identity and
  the text it stands for at the moment; \<^verbatim>\<open>Object.is\<close> compares two texts by content
  and two objects by identity. What the platform gives back to one request is a
  \<open>fetch_outcome\<close>: \<^verbatim>\<open>fetch(url)\<close> either rejects (network failure) or resolves with a
  response of any HTTP status, and \<^verbatim>\<open>response.json()\<close> either rejects (the body is not
  JSON) or resolves with the parsed body, which is \<^verbatim>\<open>null\<close> for the body \<^verbatim>\<open>null\<close>. The
  parsed body of a response and an error are never functions, so the setters take them
  as they are.
\<close>

datatype fetch_url = UrlText string | UrlObject nat string

fun same_url :: "fetch_url \<Rightarrow> fetch_url \<Rightarrow> bool" where
  "same_url (UrlText s) (UrlText s') = (s = s')"
| "same_url (UrlObject i s) (UrlObject i' s') = (i = i')"
| "same_url (UrlText s) (UrlObject i' s') = False"
| "same_url (UrlObject i s) (UrlText s') = False"

datatype js_error = TypeError string | SyntaxError string | DOMException string

record 'a response =
  status :: nat
  json :: "js_error + 'a option"

datatype 'a fetch_outcome = Rejected js_error | Resolved "'a response"

record 'a fetch_result =
  data :: "'a option"
  loading :: bool
  error :: "js_error option"

record 'a fetch_cells =
  slots :: "'a fetch_result"
  fetch_deps :: "fetch_url option"

text \<open>The hook instance and the requests that the platform has been asked for and has
  not answered yet.\<close>

record 'a fetch_world =
  hook_cells :: "'a fetch_cells option"
  pending :: "fetch_url list"

definition fetch_init :: "'a fetch_world" where
  "fetch_init = \<lparr>hook_cells = None, pending = []\<rparr>"

text \<open>The body of the hook function: three state slots, returned as they are.\<close>

definition useFetch_render ::
  "'a fetch_cells option \<Rightarrow> fetch_url \<Rightarrow> 'a fetch_result \<times> 'a fetch_cells" where
  "useFetch_render c url =
     (let d = useState (map_option (data \<circ> slots) c) (Value None);
          l = useState (map_option (loading \<circ> slots) c) (Value True);
          e = useState (map_option (error \<circ> slots) c) (Value None);
          r = \<lparr>data = d, loading = l, error = e\<rparr>
      in (r, \<lparr>slots = r, fetch_deps = (case c of None \<Rightarrow> None | Some c' \<Rightarrow> fetch_deps c')\<rparr>))"

text \<open>The effect: \<^verbatim>\<open>fetchData()\<close> runs up to its first \<^verbatim>\<open>await\<close>, which is
  \<^verbatim>\<open>setLoading(true)\<close> and the request. Nothing else is written here.\<close>

definition useFetch_effect ::
  "'a fetch_cells \<Rightarrow> fetch_url list \<Rightarrow> fetch_url \<Rightarrow> 'a fetch_world" where
  "useFetch_effect c reqs url =
     (if deps_changed same_url (fetch_deps c) url
      then \<lparr>hook_cells =
              Some (c\<lparr>slots := (slots c)\<lparr>loading := setState (loading (slots c)) (Value True)\<rparr>,
                      fetch_deps := Some url\<rparr>),
            pending = reqs @ [url]\<rparr>
      else \<lparr>hook_cells = Some c, pending = reqs\<rparr>)"

text \<open>One call of the hook by the host: what it returns to the caller, and the state
  after its effect.\<close>

definition useFetch :: "'a fetch_world \<Rightarrow> fetch_url \<Rightarrow> 'a fetch_result \<times> 'a fetch_world" where
  "useFetch w url =
     (let (r, c) = useFetch_render (hook_cells w) url
      in (r, useFetch_effect c (pending w) url))"

text \<open>The \<^verbatim>\<open>try\<close> block after the request has been answered: the value it computes, or
  the exception it throws.\<close>

definition fetchData_try :: "'a fetch_outcome \<Rightarrow> js_error + 'a option" where
  "fetchData_try out = (case out of Rejected err \<Rightarrow> Inl err | Resolved response \<Rightarrow> json response)"

text \<open>The rest of \<^verbatim>\<open>fetchData\<close>: \<^verbatim>\<open>setData\<close> or the \<^verbatim>\<open>catch\<close> clause, then the
  \<^verbatim>\<open>finally\<close> clause. The writes follow each other without an \<^verbatim>\<open>await\<close> between
  them.\<close>

definition fetchData_resume :: "'a fetch_result \<Rightarrow> 'a fetch_outcome \<Rightarrow> 'a fetch_result" where
  "fetchData_resume s out =
     (let s' = (case fetchData_try out of
                  Inr result \<Rightarrow> s\<lparr>data := setState (data s) (Value result)\<rparr>
                | Inl err \<Rightarrow> s\<lparr>error := setState (error s) (Value (Some err))\<rparr>)
      in s'\<lparr>loading := setState (loading s') (Value False)\<rparr>)"

text \<open>What happens to a hook: the host calls it with a URL, or the platform answers
  one of the pending requests. An answer to a request that is not pending is not
  possible (\<open>None\<close>).\<close>

datatype 'a fetch_event = Render fetch_url | Settle fetch_url "'a fetch_outcome"

definition fetch_step :: "'a fetch_world \<Rightarrow> 'a fetch_event \<Rightarrow> 'a fetch_world option" where
  "fetch_step w ev =
     (case ev of
        Render url \<Rightarrow> Some (snd (useFetch w url))
      | Settle url out \<Rightarrow>
          (case hook_cells w of
             None \<Rightarrow> None
           | Some c \<Rightarrow>
               if url \<in> set (pending w)
               then Some \<lparr>hook_cells = Some (c\<lparr>slots := fetchData_resume (slots c) out\<rparr>),
                          pending = remove1 url (pending w)\<rparr>
               else None))"

fun fetch_run :: "'a fetch_world \<Rightarrow> 'a fetch_event list \<Rightarrow> 'a fetch_world option" where
  "fetch_run w [] = Some w"
| "fetch_run w (ev # evs) =
     (case fetch_step w ev of None \<Rightarrow> None | Some w' \<Rightarrow> fetch_run w' evs)"

text \<open>What the caller sees after a run: every write to a slot makes the host call the
  hook again, and \<open>useFetch_returns\<close> is what that call returns.\<close>

definition useFetch_returns ::
  "'a fetch_world option \<Rightarrow> fetch_url \<Rightarrow> 'a fetch_result option" where
  "useFetch_returns r url = (case r of None \<Rightarrow> None | Some w \<Rightarrow> Some (fst (useFetch w url)))"

text \<open>The number of requests of a run that have completed, that have succeeded and
  that have failed, and whether every successful answer carried a body other than
  \<^verbatim>\<open>null\<close>.\<close>

fun completed :: "'a fetch_event list \<Rightarrow> nat" where
  "completed [] = 0"
| "completed (Render url # evs) = completed evs"
| "completed (Settle url out # evs) = Suc (completed evs)"

fun succeeded :: "'a fetch_event list \<Rightarrow> nat" where
  "succeeded [] = 0"
| "succeeded (Render url # evs) = succeeded evs"
| "succeeded (Settle url out # evs) =
     (case fetchData_try out of Inl err \<Rightarrow> succeeded evs | Inr result \<Rightarrow> Suc (succeeded evs))"

fun failed :: "'a fetch_event list \<Rightarrow> nat" where
  "failed [] = 0"
| "failed (Render url # evs) = failed evs"
| "failed (Settle url out # evs) =
     (case fetchData_try out of Inl err \<Rightarrow> Suc (failed evs) | Inr result \<Rightarrow> failed evs)"

fun nonnull_bodies :: "'a fetch_event list \<Rightarrow> bool" where
  "nonnull_bodies [] = True"
| "nonnull_bodies (Render url # evs) = nonnull_bodies evs"
| "nonnull_bodies (Settle url out # evs) =
     (fetchData_try out \<noteq> Inr None \<and> nonnull_bodies evs)"

definition populated :: "'b option \<Rightarrow> bool" where
  "populated x = (x \<noteq> None)"

definition exactly_one_populated :: "'a fetch_result \<Rightarrow> bool" where
  "exactly_one_populated r = (populated (data r) \<noteq> populated (error r))"

text \<open>Runs and states used as examples.\<close>

definition success_then_failure :: "nat fetch_event list" where
  "success_then_failure =
     [Render (UrlText ''/a''),
      Settle (UrlText ''/a'') (Resolved \<lparr>status = 200, json = Inr (Some 1)\<rparr>),
      Render (UrlText ''/b''),
      Settle (UrlText ''/b'') (Rejected (TypeError ''Failed to fetch''))]"

definition failure_then_success :: "nat fetch_event list" where
  "failure_then_success =
     [Render (UrlText ''/a''),
      Settle (UrlText ''/a'') (Rejected (TypeError ''Failed to fetch'')),
      Render (UrlText ''/b''),
      Settle (UrlText ''/b'') (Resolved \<lparr>status = 200, json = Inr (Some 1)\<rparr>)]"

definition after_failure :: "nat fetch_world" where
  "after_failure =
     \<lparr>hook_cells = Some \<lparr>slots = \<lparr>data = None, loading = False,
                                    error = Some (TypeError ''Failed to fetch'')\<rparr>,
                          fetch_deps = Some (UrlText ''/a'')\<rparr>,
      pending = []\<rparr>"

definition after_success :: "nat fetch_world" where
  "after_success =
     \<lparr>hook_cells = Some \<lparr>slots = \<lparr>data = Some 1, loading = False, error = None\<rparr>,
                          fetch_deps = Some (UrlText ''/a'')\<rparr>,
      pending = []\<rparr>"


section \<open>useMediaQuery\<close>

text \<open>
  \<^verbatim>\<open>
  export function useMediaQuery(query: QueryString) : boolean {
    const [matches, setMatches] = useState<boolean>(false);
    useEffect(() => {
      const mediaQueryList = window.matchMedia(query);
      const updateMatch = () => setMatches(mediaQueryList.matches);
      updateMatch();
      mediaQueryList.addEventListener('change', updateMatch);
      return () => mediaQueryList.removeEventListener('change', updateMatch);
    }, [query]);
    return matches;
  }
  \<close>
  The environment is the function \<open>matchMedia\<close> that says, for every query string,
  whether it matches at this moment (\<^verbatim>\<open>window.matchMedia(query).matches\<close>).
\<close>

record media_cells =
  matches :: bool
  media_deps :: "string option"
  listening :: "string option"

definition useMediaQuery_render :: "media_cells option \<Rightarrow> string \<Rightarrow> bool \<times> media_cells" where
  "useMediaQuery_render c query =
     (let m = useState (map_option matches c) (Value False)
      in (m, \<lparr>matches = m,
               media_deps = (case c of None \<Rightarrow> None | Some c' \<Rightarrow> media_deps c'),
               listening = (case c of None \<Rightarrow> None | Some c' \<Rightarrow> listening c')\<rparr>))"

text \<open>The effect: the cleanup of the previous run removes its listener, then
  \<^verbatim>\<open>updateMatch()\<close> writes the current answer of the environment and the listener is
  registered for the new query.\<close>

definition useMediaQuery_effect :: "(string \<Rightarrow> bool) \<Rightarrow> media_cells \<Rightarrow> string \<Rightarrow> media_cells" where
  "useMediaQuery_effect matchMedia c query =
     (if deps_changed (=) (media_deps c) query
      then (let c1 = c\<lparr>listening := None\<rparr>;
                c2 = c1\<lparr>matches := matchMedia query\<rparr>
            in c2\<lparr>listening := Some query, media_deps := Some query\<rparr>)
      else c)"

definition useMediaQuery ::
  "(string \<Rightarrow> bool) \<Rightarrow> media_cells option \<Rightarrow> string \<Rightarrow> bool \<times> media_cells" where
  "useMediaQuery matchMedia c query =
     (let (result, c') = useMediaQuery_render c query
      in (result, useMediaQuery_effect matchMedia c' query))"

text \<open>The environment signals a change: the registered listener, if any, runs
  \<^verbatim>\<open>updateMatch\<close> against the new environment.\<close>

definition media_change :: "(string \<Rightarrow> bool) \<Rightarrow> media_cells \<Rightarrow> media_cells" where
  "media_change matchMedia c =
     (case listening c of None \<Rightarrow> c | Some q \<Rightarrow> c\<lparr>matches := matchMedia q\<rparr>)"

text \<open>An environment in which the viewport is at least 768 pixels wide, as far as
  the one query below is concerned.\<close>

definition wide_viewport :: "string \<Rightarrow> bool" where
  "wide_viewport query = (query = ''(min-width: 768px)'')"


section \<open>useToggle\<close>

text \<open>
  \<^verbatim>\<open>
  export function useToggle(initialState: boolean = false) {
    const [state, setState] = useState<boolean>(initialState);
    const toggle = () => setState((prev) => !prev);
    return [state, toggle] as const;
  }
  \<close>
  \<^verbatim>\<open>setState\<close> with a function argument does not write the slot at once: the host
  queues the function and, at the next call of the hook, applies the queued functions
  in order, each to the result of the one before. Several calls of \<^verbatim>\<open>toggle\<close> can
  therefore be queued before the hook is called again. The optional argument is
  \<open>None\<close> when the caller leaves it out.
\<close>

record toggle_cells =
  state :: bool
  queue :: "(bool \<Rightarrow> bool) list"

definition useToggle_render :: "toggle_cells option \<Rightarrow> bool option \<Rightarrow> bool \<times> toggle_cells" where
  "useToggle_render c arg =
     (let initialState = (case arg of None \<Rightarrow> False | Some b \<Rightarrow> b);
          s0 = useState (map_option state c) (Value initialState);
          s = foldl (\<lambda>prev f. f prev) s0 (case c of None \<Rightarrow> [] | Some c' \<Rightarrow> queue c')
      in (s, \<lparr>state = s, queue = []\<rparr>))"

definition toggle :: "toggle_cells \<Rightarrow> toggle_cells" where
  "toggle c = c\<lparr>queue := queue c @ [\<lambda>prev. \<not> prev]\<rparr>"

text \<open>What happens to a mounted toggle: \<^verbatim>\<open>toggle()\<close> is called, or the host calls the
  hook again (with whatever argument).\<close>

datatype toggle_event = Toggle | Rerender "bool option"

fun toggle_run :: "toggle_cells \<Rightarrow> toggle_event list \<Rightarrow> toggle_cells" where
  "toggle_run c [] = c"
| "toggle_run c (Toggle # evs) = toggle_run (toggle c) evs"
| "toggle_run c (Rerender arg # evs) = toggle_run (snd (useToggle_render (Some c) arg)) evs"

fun toggles :: "toggle_event list \<Rightarrow> nat" where
  "toggles [] = 0"
| "toggles (Toggle # evs) = Suc (toggles evs)"
| "toggles (Rerender arg # evs) = toggles evs"

text \<open>The state the caller sees after a run that started with the first call of the
  hook: the result of one more call.\<close>

definition useToggle_after :: "bool option \<Rightarrow> toggle_event list \<Rightarrow> bool" where
  "useToggle_after arg evs =
     fst (useToggle_render (Some (toggle_run (snd (useToggle_render None arg)) evs)) arg)"


section \<open>useDebounce\<close>

text \<open>
  \<^verbatim>\<open>
  export function useDebounce<T>({ value, delay }: DebounceType<T>): T {
    const [debouncedValue, setDebouncedValue] = useState(value);
    useEffect(() => {
      const handler = setTimeout(() => setDebouncedValue(value), delay);
      return () => clearTimeout(handler);
    }, [value, delay]);
    return debouncedValue;
  }
  \<close>
  Time is a number of milliseconds. The platform keeps the timers that are armed:
  \<^verbatim>\<open>setTimeout(f, delay)\<close> arms a timer under a fresh handle and
  \<^verbatim>\<open>clearTimeout(handle)\<close> disarms it. The platform keeps the delay of a timer as a
  signed 32-bit number of milliseconds: a delay from 0 to \<open>2 ^ 31 - 1\<close> is honoured, and
  the platform may run the timer at any moment from that many milliseconds after the
  call on; a delay outside that range is not honoured, and the platform may run the
  timer at any moment from the call on. The callback of this hook is determined by the
  value it captured; it hands that value to the setter of the slot.
\<close>

record 'a timer =
  handle :: nat
  due :: int
  captured :: 'a

record 'a debounce_cells =
  debouncedValue :: 'a
  debounce_deps :: "('a \<times> int) option"
  cleanup :: "nat option"

record 'a debounce_world =
  debounce_hook :: "'a debounce_cells option"
  timers :: "'a timer list"
  next_handle :: nat
  clock :: int
  published :: "(int \<times> 'a) list"

definition debounce_init :: "'a debounce_world" where
  "debounce_init =
     \<lparr>debounce_hook = None, timers = [], next_handle = 0, clock = 0, published = []\<rparr>"

definition timeout_of :: "int \<Rightarrow> int" where
  "timeout_of delay = (if 0 \<le> delay \<and> delay < 2 ^ 31 then delay else 0)"

definition setTimeout :: "'a debounce_world \<Rightarrow> 'a \<Rightarrow> int \<Rightarrow> nat \<times> 'a debounce_world" where
  "setTimeout w v delay =
     (next_handle w,
      w\<lparr>timers := timers w
                    @ [\<lparr>handle = next_handle w, due = clock w + timeout_of delay, captured = v\<rparr>],
        next_handle := Suc (next_handle w)\<rparr>)"

definition clearTimeout :: "'a debounce_world \<Rightarrow> nat \<Rightarrow> 'a debounce_world" where
  "clearTimeout w h = w\<lparr>timers := filter (\<lambda>t. handle t \<noteq> h) (timers w)\<rparr>"

text \<open>The body of the hook function. \<open>value\<close> goes to \<^verbatim>\<open>useState\<close> as it is, so a
  function is called to give the initial state.\<close>

definition useDebounce_render ::
  "('a \<Rightarrow> ('a option \<Rightarrow> 'a) option) \<Rightarrow> 'a debounce_cells option \<Rightarrow> 'a \<Rightarrow> int
     \<Rightarrow> 'a \<times> 'a debounce_cells" where
  "useDebounce_render call c value delay =
     (let d = useState (map_option debouncedValue c) (as_arg call value)
      in (d, \<lparr>debouncedValue = d,
               debounce_deps = (case c of None \<Rightarrow> None | Some c' \<Rightarrow> debounce_deps c'),
               cleanup = (case c of None \<Rightarrow> None | Some c' \<Rightarrow> cleanup c')\<rparr>))"

text \<open>The effect: the cleanup of the previous run first, then the new timer, whose
  handle the new cleanup captures.\<close>

definition useDebounce_effect ::
  "'a debounce_world \<Rightarrow> 'a debounce_cells \<Rightarrow> 'a \<Rightarrow> int \<Rightarrow> 'a debounce_world" where
  "useDebounce_effect w c value delay =
     (if deps_changed (=) (debounce_deps c) (value, delay)
      then (let w1 = (case cleanup c of None \<Rightarrow> w | Some h \<Rightarrow> clearTimeout w h);
                (handler, w2) = setTimeout w1 value delay
            in w2\<lparr>debounce_hook :=
                    Some (c\<lparr>debounce_deps := Some (value, delay), cleanup := Some handler\<rparr>)\<rparr>)
      else w\<lparr>debounce_hook := Some c\<rparr>)"

text \<open>One call of the hook by the host: what it returns to the caller, and the state
  after its effect.\<close>

definition useDebounce ::
  "('a \<Rightarrow> ('a option \<Rightarrow> 'a) option) \<Rightarrow> 'a debounce_world \<Rightarrow> 'a \<Rightarrow> int
     \<Rightarrow> 'a \<times> 'a debounce_world" where
  "useDebounce call w value delay =
     (let (result, c) = useDebounce_render call (debounce_hook w) value delay
      in (result, useDebounce_effect w c value delay))"

text \<open>The callback of a timer: \<^verbatim>\<open>setDebouncedValue(value)\<close>. What the slot holds
  afterwards is recorded in \<open>published\<close> with the time at which the callback ran.\<close>

definition timer_callback ::
  "('a \<Rightarrow> ('a option \<Rightarrow> 'a) option) \<Rightarrow> 'a debounce_world \<Rightarrow> 'a \<Rightarrow> 'a debounce_world" where
  "timer_callback call w v =
     (case debounce_hook w of
        None \<Rightarrow> w
      | Some c \<Rightarrow>
          (let s = setState (debouncedValue c) (as_arg call v)
           in w\<lparr>debounce_hook := Some (c\<lparr>debouncedValue := s\<rparr>),
                published := published w @ [(clock w, s)]\<rparr>))"

text \<open>What happens, each at its time: the host calls the hook with a value and a
  delay, or the platform runs the timer of a handle. Time does not go back; the platform
  runs only a timer that is armed, and not before it is due.\<close>

datatype 'a debounce_event = Call int 'a int | Fire int nat

definition debounce_step ::
  "('a \<Rightarrow> ('a option \<Rightarrow> 'a) option) \<Rightarrow> 'a debounce_world \<Rightarrow> 'a debounce_event
     \<Rightarrow> 'a debounce_world option" where
  "debounce_step call w ev =
     (case ev of
        Call t v delay \<Rightarrow>
          if t < clock w then None else Some (snd (useDebounce call (w\<lparr>clock := t\<rparr>) v delay))
      | Fire t h \<Rightarrow>
          (case find (\<lambda>x. handle x = h) (timers w) of
             None \<Rightarrow> None
           | Some tm \<Rightarrow>
               if t < clock w \<or> t < due tm then None
               else Some (timer_callback call (clearTimeout (w\<lparr>clock := t\<rparr>) h) (captured tm))))"

fun debounce_run ::
  "('a \<Rightarrow> ('a option \<Rightarrow> 'a) option) \<Rightarrow> 'a debounce_world \<Rightarrow> 'a debounce_event list
     \<Rightarrow> 'a debounce_world option" where
  "debounce_run call w [] = Some w"
| "debounce_run call w (ev # evs) =
     (case debounce_step call w ev of None \<Rightarrow> None | Some w' \<Rightarrow> debounce_run call w' evs)"

text \<open>A sequence of updates starts with a call that changes the value or the delay
  (or is the first call of the hook); the later updates are the calls whose value differs
  from that of the update before. \<open>last_update\<close> gives the time and the value of the
  last update, starting from the one given. A sequence is \<open>rapid\<close> for a delay when every
  call passes that delay and every update arrives sooner than the delay after the update
  before it. \<open>no_functions\<close> says that none of the values passed is a function.\<close>

definition changes :: "'a debounce_world \<Rightarrow> 'a \<Rightarrow> int \<Rightarrow> bool" where
  "changes w v delay =
     (case debounce_hook w of
        None \<Rightarrow> True
      | Some c \<Rightarrow> deps_changed (=) (debounce_deps c) (v, delay))"

fun last_update :: "int \<times> 'a \<Rightarrow> 'a debounce_event list \<Rightarrow> int \<times> 'a" where
  "last_update prev [] = prev"
| "last_update prev (Fire t h # evs) = last_update prev evs"
| "last_update prev (Call t v delay # evs) =
     (if v = snd prev then last_update prev evs else last_update (t, v) evs)"

fun rapid :: "int \<Rightarrow> int \<times> 'a \<Rightarrow> 'a debounce_event list \<Rightarrow> bool" where
  "rapid d prev [] = True"
| "rapid d prev (Fire t h # evs) = rapid d prev evs"
| "rapid d prev (Call t v delay # evs) =
     (delay = d \<and>
      (if v = snd prev then rapid d prev evs else t < fst prev + d \<and> rapid d (t, v) evs))"

fun no_functions :: "('a \<Rightarrow> ('a option \<Rightarrow> 'a) option) \<Rightarrow> 'a debounce_event list \<Rightarrow> bool" where
  "no_functions call [] = True"
| "no_functions call (Fire t h # evs) = no_functions call evs"
| "no_functions call (Call t v delay # evs) = (call v = None \<and> no_functions call evs)"

text \<open>Invariants of the runs of the debouncer. \<open>one_timer\<close>: at most one timer is
  armed, and it is the one that the current cleanup would disarm. \<open>burst_inv\<close>: in a
  rapid sequence whose last update so far is \<open>prev\<close>, either nothing has been published
  since the sequence began (all but the first \<open>n\<close> entries of the record), the slot still
  holds \<open>x0\<close> and the timer of that update is armed; or no timer is armed, the slot holds
  the value of that update, and what has been published is that value, when its delay
  had passed.\<close>

definition one_timer :: "'a debounce_world \<Rightarrow> bool" where
  "one_timer w =
     (timers w = [] \<or>
      (\<exists>tm c. timers w = [tm] \<and> debounce_hook w = Some c \<and> cleanup c = Some (handle tm)))"

definition burst_inv ::
  "('a \<Rightarrow> ('a option \<Rightarrow> 'a) option) \<Rightarrow> nat \<Rightarrow> int \<Rightarrow> 'a \<Rightarrow> int \<times> 'a \<Rightarrow> 'a debounce_world
     \<Rightarrow> bool" where
  "burst_inv call n d x0 prev w =
     (\<exists>c. debounce_hook w = Some c \<and> debounce_deps c = Some (snd prev, d) \<and>
          call (snd prev) = None \<and> fst prev \<le> clock w \<and> n \<le> length (published w) \<and>
          ((drop n (published w) = [] \<and> debouncedValue c = x0 \<and>
            (\<exists>h. cleanup c = Some h \<and>
                 timers w = [\<lparr>handle = h, due = fst prev + max 0 d, captured = snd prev\<rparr>]))
           \<or>
           (drop n (published w) \<noteq> [] \<and> debouncedValue c = snd prev \<and> timers w = [] \<and>
            (\<forall>(t, v) \<in> set (drop n (published w)).
                v = snd prev \<and> fst prev + d \<le> t \<and> t \<le> clock w))))"

text \<open>Values for the examples: numbers, and for every number the function that
  returns it whatever it is called with.\<close>

datatype sample = Num nat | Thunk nat

definition call_sample :: "sample \<Rightarrow> (sample option \<Rightarrow> sample) option" where
  "call_sample v = (case v of Num n \<Rightarrow> None | Thunk n \<Rightarrow> Some (\<lambda>arg. Num n))"

text \<open>A hook whose first value was published long ago, then three updates 100 and
  150 milliseconds apart with a delay of 300, then the timer of the last one at the
  moment it is due.\<close>

definition settled_hook :: "sample debounce_event list" where
  "settled_hook = [Call 0 (Num 1) 300, Fire 300 0]"

definition after_settled_hook :: "sample debounce_world" where
  "after_settled_hook =
     \<lparr>debounce_hook = Some \<lparr>debouncedValue = Num 1, debounce_deps = Some (Num 1, 300),
                            cleanup = Some 0\<rparr>,
      timers = [], next_handle = 1, clock = 300, published = [(300, Num 1)]\<rparr>"

definition two_more_updates :: "sample debounce_event list" where
  "two_more_updates = [Call 1100 (Num 3) 300, Call 1250 (Num 4) 300, Fire 1550 3]"

definition after_three_rapid_updates :: "sample debounce_world" where
  "after_three_rapid_updates =
     \<lparr>debounce_hook = Some \<lparr>debouncedValue = Num 4, debounce_deps = Some (Num 4, 300),
                            cleanup = Some 3\<rparr>,
      timers = [], next_handle = 4, clock = 1550, published = [(300, Num 1), (1550, Num 4)]\<rparr>"

text \<open>After a first call with a delay of \<open>2 ^ 31\<close> milliseconds: its timer 4
  milliseconds later, an update 10 milliseconds after the first call, and the timer of
  that update 4 milliseconds later.\<close>

definition overlong_delay :: "sample debounce_event list" where
  "overlong_delay = [Fire 4 0, Call 10 (Num 2) 2147483648, Fire 14 1]"

definition after_overlong_delay :: "sample debounce_world" where
  "after_overlong_delay =
     \<lparr>debounce_hook = Some \<lparr>debouncedValue = Num 2, debounce_deps = Some (Num 2, 2147483648),
                            cleanup = Some 1\<rparr>,
      timers = [], next_handle = 2, clock = 14, published = [(4, Num 1), (14, Num 2)]\<rparr>"

text \<open>After a first call with a delay of 300 milliseconds: an update to a function
  100 milliseconds later, and its timer when it is due.\<close>

definition function_update :: "sample debounce_event list" where
  "function_update = [Call 100 (Thunk 5) 300, Fire 400 1]"

definition after_function_update :: "sample debounce_world" where
  "after_function_update =
     \<lparr>debounce_hook = Some \<lparr>debouncedValue = Num 5, debounce_deps = Some (Thunk 5, 300),
                            cleanup = Some 1\<rparr>,
      timers = [], next_handle = 2, clock = 400, published = [(400, Num 5)]\<rparr>"


section \<open>useLocalStorage\<close>

text \<open>
  \<^verbatim>\<open>
  export function useLocalStorage<T>({ key, initialValue }: LocalStorageType<T>) {
    const [storedValue, setStoredValue] = useState<T>(() => {
      try {
        const item = window.localStorage.getItem(key);
        return item ? JSON.parse(item) : initialValue;
      } catch(err) { console.error(err); return initialValue; }
    });
    const setValue = (value: T) => {
      try {
        setStoredValue(value);
        window.localStorage.setItem(key, JSON.stringify(value));
      } catch (err) { console.error(err); }
    };
    return [storedValue, setValue] as const;
  }
  \<close>
  The store is a map from keys to texts. Access to it can be refused altogether, in
  which case both \<^verbatim>\<open>getItem\<close> and \<^verbatim>\<open>setItem\<close> throw, and the store can refuse a write
  for lack of room.
\<close>

record local_storage =
  items :: "string \<Rightarrow> string option"
  refused :: bool
  room_for :: "string \<Rightarrow> string \<Rightarrow> bool"

definition getItem :: "local_storage \<Rightarrow> string \<Rightarrow> js_error + string option" where
  "getItem st key =
     (if refused st then Inl (DOMException ''SecurityError'') else Inr (items st key))"

definition setItem :: "local_storage \<Rightarrow> string \<Rightarrow> string \<Rightarrow> js_error + local_storage" where
  "setItem st key text =
     (if refused st then Inl (DOMException ''SecurityError'')
      else if \<not> room_for st key text then Inl (DOMException ''QuotaExceededError'')
      else Inr (st\<lparr>items := (items st)(key \<mapsto> text)\<rparr>))"

text \<open>
  \<^verbatim>\<open>JSON.stringify\<close> and \<^verbatim>\<open>JSON.parse\<close> belong to the platform and depend on what the
  values of \<^verbatim>\<open>T\<close> are, so the hook takes them as a parameter. \<^verbatim>\<open>JSON.stringify\<close>
  throws, or returns \<^verbatim>\<open>undefined\<close> (\<open>None\<close>), or returns a text; \<^verbatim>\<open>JSON.parse\<close> throws
  or returns a value. \<^verbatim>\<open>setItem\<close> turns its argument into a text, which for
  \<^verbatim>\<open>undefined\<close> is the text \<^verbatim>\<open>undefined\<close>.
\<close>

record 'a json_codec =
  stringify :: "'a \<Rightarrow> js_error + string option"
  parse :: "string \<Rightarrow> js_error + 'a"

definition to_text :: "string option \<Rightarrow> string" where
  "to_text s = (case s of None \<Rightarrow> ''undefined'' | Some text \<Rightarrow> text)"

text \<open>The initialiser of the state slot. A missing item and the empty text are both
  falsy. The second component is what \<^verbatim>\<open>console.error\<close> received, if anything.\<close>

definition useLocalStorage_initial ::
  "'a json_codec \<Rightarrow> local_storage \<Rightarrow> string \<Rightarrow> 'a \<Rightarrow> 'a \<times> js_error option" where
  "useLocalStorage_initial codec st key initialValue =
     (case getItem st key of
        Inl err \<Rightarrow> (initialValue, Some err)
      | Inr item \<Rightarrow>
          (case item of
             None \<Rightarrow> (initialValue, None)
           | Some text \<Rightarrow>
               if text = [] then (initialValue, None)
               else (case parse codec text of
                       Inl err \<Rightarrow> (initialValue, Some err)
                     | Inr v \<Rightarrow> (v, None))))"

text \<open>The body of the hook function: the value of the slot. The argument of
  \<^verbatim>\<open>useState\<close> is a function, which the host calls on the first call only.\<close>

definition useLocalStorage ::
  "'a json_codec \<Rightarrow> local_storage \<Rightarrow> 'a option \<Rightarrow> string \<Rightarrow> 'a \<Rightarrow> 'a" where
  "useLocalStorage codec st c key initialValue =
     useState c (Compute (\<lambda>arg. fst (useLocalStorage_initial codec st key initialValue)))"

text \<open>\<^verbatim>\<open>setValue\<close>: the slot is written first, then the store; an exception of
  \<^verbatim>\<open>JSON.stringify\<close> or of \<^verbatim>\<open>setItem\<close> leaves the store as it was and is logged.
  \<open>value\<close> goes to the setter of the slot as it is. The arguments are the store and the
  slot before; the result is the slot, the store and what was logged.\<close>

definition setValue ::
  "('a \<Rightarrow> ('a option \<Rightarrow> 'a) option) \<Rightarrow> 'a json_codec \<Rightarrow> string \<Rightarrow> local_storage \<Rightarrow> 'a \<Rightarrow> 'a
     \<Rightarrow> 'a \<times> local_storage \<times> js_error option" where
  "setValue call codec key st stored value =
     (let storedValue = setState stored (as_arg call value)
      in case stringify codec value of
           Inl err \<Rightarrow> (storedValue, st, Some err)
         | Inr s \<Rightarrow>
             (case setItem st key (to_text s) of
                Inl err \<Rightarrow> (storedValue, st, Some err)
              | Inr st' \<Rightarrow> (storedValue, st', None)))"

text \<open>A value survives serialisation when \<^verbatim>\<open>JSON.stringify\<close> gives a text for it that
  is not empty and that \<^verbatim>\<open>JSON.parse\<close> turns back into the value.\<close>

definition survives_json :: "'a json_codec \<Rightarrow> 'a \<Rightarrow> bool" where
  "survives_json codec x =
     (case stringify codec x of
        Inl err \<Rightarrow> False
      | Inr s \<Rightarrow> to_text s \<noteq> [] \<and> parse codec (to_text s) = Inr x)"

text \<open>
  The platform's JSON functions on a few values of the language, enough to run the
  hook on: \<^verbatim>\<open>undefined\<close>, \<^verbatim>\<open>null\<close> and the booleans. \<^verbatim>\<open>JSON.stringify(undefined)\<close> is
  \<^verbatim>\<open>undefined\<close>; the texts \<^verbatim>\<open>null\<close>, \<^verbatim>\<open>true\<close> and \<^verbatim>\<open>false\<close> are the JSON of the other
  three values. Of all other texts only \<^verbatim>\<open>undefined\<close> occurs in the runs below; it is
  not JSON, and \<^verbatim>\<open>JSON.parse\<close> throws a \<^verbatim>\<open>SyntaxError\<close> on it.
\<close>

datatype js_value = Undefined | Null | Boolean bool

definition js_stringify :: "js_value \<Rightarrow> js_error + string option" where
  "js_stringify v =
     (case v of
        Undefined \<Rightarrow> Inr None
      | Null \<Rightarrow> Inr (Some ''null'')
      | Boolean b \<Rightarrow> Inr (Some (if b then ''true'' else ''false'')))"

definition js_parse :: "string \<Rightarrow> js_error + js_value" where
  "js_parse text =
     (if text = ''null'' then Inr Null
      else if text = ''true'' then Inr (Boolean True)
      else if text = ''false'' then Inr (Boolean False)
      else Inl (SyntaxError text))"

definition js_call :: "js_value \<Rightarrow> (js_value option \<Rightarrow> js_value) option" where
  "js_call v = None"

definition js_json :: "js_value json_codec" where
  "js_json = \<lparr>stringify = js_stringify, parse = js_parse\<rparr>"

definition empty_storage :: local_storage where
  "empty_storage = \<lparr>items = (\<lambda>key. None), refused = False, room_for = (\<lambda>key text. True)\<rparr>"


section \<open>Properties of usePrevious\<close>

lemma usePrevious_first_settled:
  "previous_settled (snd (usePrevious None v)) \<and> ref_current (snd (usePrevious None v)) = v"
  by (simp add: usePrevious_def usePrevious_render_def usePrevious_effect_def
                deps_changed_def useRef_def previous_settled_def Let_def)

lemma usePrevious_later_settled:
  assumes "previous_settled c"
  shows "previous_settled (snd (usePrevious (Some c) v))
         \<and> ref_current (snd (usePrevious (Some c) v)) = v"
  using assms
  by (auto simp: usePrevious_def usePrevious_render_def usePrevious_effect_def
                 deps_changed_def useRef_def previous_settled_def Let_def)

lemma usePrevious_later_cycle:
  "fst (usePrevious (Some c) v) = Some (ref_current c)"
  by (simp add: usePrevious_def usePrevious_render_def useRef_def Let_def)

lemma usePrevious_cycles_length: "length (usePrevious_cycles cells vs) = length vs"
  by (induction vs arbitrary: cells) (auto simp: Let_def split: prod.splits)

lemma usePrevious_cycles_settled:
  assumes "previous_settled c0"
  shows "last (usePrevious_cycles (Some c0) (vs @ [b, c])) = Some b"
  using assms
proof (induction vs arbitrary: c0)
  case Nil
  obtain r1 c1 where s1: "usePrevious (Some c0) b = (r1, c1)"
    by (cases "usePrevious (Some c0) b")
  have "ref_current c1 = b" using usePrevious_later_settled [OF Nil, of b] s1 by simp
  then show ?case using s1 usePrevious_later_cycle [of c1 c]
    by (auto simp: Let_def split: prod.splits)
next
  case (Cons v vs)
  obtain r1 c1 where s1: "usePrevious (Some c0) v = (r1, c1)"
    by (cases "usePrevious (Some c0) v")
  have st: "previous_settled c1" using usePrevious_later_settled [OF Cons.prems, of v] s1 by simp
  have ne: "usePrevious_cycles (Some c1) (vs @ [b, c]) \<noteq> []"
    using usePrevious_cycles_length [of "Some c1" "vs @ [b, c]"] by auto
  show ?case using Cons.IH [OF st] ne s1 by (simp add: Let_def)
qed

lemma usePrevious_cycles_previous:
  "last (usePrevious_cycles None (vs @ [a, b, c])) = Some b"
proof (cases vs)
  case Nil
  obtain r1 c1 where s1: "usePrevious None a = (r1, c1)" by (cases "usePrevious None a")
  have st: "previous_settled c1" using usePrevious_first_settled [of a] s1 by simp
  have ne: "usePrevious_cycles (Some c1) [b, c] \<noteq> []"
    using usePrevious_cycles_length [of "Some c1" "[b, c]"] by auto
  show ?thesis using usePrevious_cycles_settled [OF st, of "[]" b c] ne s1 Nil
    by (simp add: Let_def)
next
  case (Cons v ws)
  obtain r1 c1 where s1: "usePrevious None v = (r1, c1)" by (cases "usePrevious None v")
  have st: "previous_settled c1" using usePrevious_first_settled [of v] s1 by simp
  have ne: "usePrevious_cycles (Some c1) (ws @ [a, b, c]) \<noteq> []"
    using usePrevious_cycles_length [of "Some c1" "ws @ [a, b, c]"] by auto
  have "last (usePrevious_cycles (Some c1) ((ws @ [a]) @ [b, c])) = Some b"
    by (rule usePrevious_cycles_settled [OF st])
  then show ?thesis using ne s1 Cons by (simp add: Let_def)
qed

text \<open>
  C1, second half (holds): after the updates \<open>a\<close>, \<open>b\<close>, \<open>c\<close> in sequence, the call
  for \<open>c\<close> returns \<open>b\<close>; more generally the call that follows any sequence of cycles
  ending in \<open>b\<close> returns \<open>b\<close>.
\<close>

lemma usePrevious_a_b_c: "usePrevious_cycles None [a, b, c] = [Some a, Some a, Some b]"
  by (simp add: usePrevious_def usePrevious_render_def usePrevious_effect_def
                deps_changed_def useRef_def Let_def)

text \<open>
  C1, first half (fails on the code): the claim says that the very first update cycle
  returns undefined. The ref is created with \<^verbatim>\<open>useRef<T>(value)\<close>, so the first call
  returns the current value itself, never \<^verbatim>\<open>undefined\<close>, although the function
  declares the result type \<^verbatim>\<open>T | undefined\<close> and documents the result as "the previous
  value".
\<close>

theorem usePrevious_first_cycle_returns_current:
  "fst (usePrevious None a) = Some a \<and> fst (usePrevious None a) \<noteq> None"
  by (simp add: usePrevious_def usePrevious_render_def useRef_def Let_def)


section \<open>Properties of useFetch\<close>

lemmas fetch_defs = fetch_step_def useFetch_def useFetch_render_def useFetch_effect_def
  fetchData_resume_def fetchData_try_def deps_changed_def useState_def setState_def
  fetch_init_def useFetch_returns_def Let_def

text \<open>What a call returns is what the slots hold before its effect runs, whatever
  the URL passed.\<close>

lemma useFetch_fst_mounted:
  assumes "hook_cells w = Some c"
  shows "fst (useFetch w url) = slots c"
  using assms by (simp add: useFetch_def useFetch_render_def useState_def Let_def)

lemma useFetch_fst_fresh:
  assumes "hook_cells w = None"
  shows "fst (useFetch w url) = \<lparr>data = None, loading = True, error = None\<rparr>"
  using assms by (simp add: useFetch_def useFetch_render_def useState_def Let_def)

lemma useFetch_fst_any_url: "fst (useFetch w url) = fst (useFetch w url')"
  by (cases "hook_cells w") (simp_all add: useFetch_fst_mounted useFetch_fst_fresh)

lemma useFetch_snd_keeps:
  "data (fst (useFetch (snd (useFetch w url)) url')) = data (fst (useFetch w url'))"
  "error (fst (useFetch (snd (useFetch w url)) url')) = error (fst (useFetch w url'))"
  by (cases "hook_cells w";
      simp add: useFetch_def useFetch_render_def useFetch_effect_def useState_def Let_def)+

lemma success_then_failure_run:
  "fetch_run fetch_init success_then_failure =
     Some \<lparr>hook_cells = Some \<lparr>slots = \<lparr>data = Some 1, loading = False,
                                         error = Some (TypeError ''Failed to fetch'')\<rparr>,
                               fetch_deps = Some (UrlText ''/b'')\<rparr>,
           pending = []\<rparr>"
  by (simp add: success_then_failure_def fetch_defs)

lemma failure_then_success_run:
  "fetch_run fetch_init failure_then_success =
     Some \<lparr>hook_cells = Some \<lparr>slots = \<lparr>data = Some 1, loading = False,
                                         error = Some (TypeError ''Failed to fetch'')\<rparr>,
                               fetch_deps = Some (UrlText ''/b'')\<rparr>,
           pending = []\<rparr>"
  by (simp add: failure_then_success_def fetch_defs)

lemma after_failure_reached:
  "fetch_run fetch_init (take 2 failure_then_success) = Some after_failure"
  by (simp add: failure_then_success_def after_failure_def fetch_defs)

lemma after_success_reached:
  "fetch_run fetch_init (take 2 success_then_failure) = Some after_success"
  by (simp add: success_then_failure_def after_success_def fetch_defs)

text \<open>A URL object made anew for every call is a changed dependency even when its
  text is the same, so every such call issues a request; a text is compared by
  content.\<close>

lemma useFetch_fresh_url_object:
  assumes "hook_cells w = Some c" and "fetch_deps c = Some (UrlObject i s)" and "i \<noteq> j"
  shows "pending (snd (useFetch w (UrlObject j s))) = pending w @ [UrlObject j s]"
    and "pending (snd (useFetch w (UrlObject i s'))) = pending w"
  using assms
  by (simp_all add: useFetch_def useFetch_render_def useFetch_effect_def deps_changed_def
                    useState_def Let_def)

lemma resume_data:
  assumes "fetchData_try out \<noteq> Inr None"
  shows "populated (data (fetchData_resume s out))
           = (populated (data s) \<or> 0 < succeeded [Settle url out])"
    and "populated (error (fetchData_resume s out))
           = (populated (error s) \<or> 0 < failed [Settle url out])"
  using assms
  by (cases "fetchData_try out";
      auto simp: fetchData_resume_def setState_def populated_def Let_def)+

lemma step_populated:
  assumes "fetch_step w ev = Some w'" and "nonnull_bodies [ev]"
  shows "populated (data (fst (useFetch w' u)))
           = (populated (data (fst (useFetch w u))) \<or> 0 < succeeded [ev])
         \<and> populated (error (fst (useFetch w' u)))
           = (populated (error (fst (useFetch w u))) \<or> 0 < failed [ev])"
proof (cases ev)
  case (Render url)
  then have "w' = snd (useFetch w url)" using assms(1) by (simp add: fetch_step_def)
  then show ?thesis using Render by (simp add: useFetch_snd_keeps)
next
  case (Settle url out)
  then obtain c where c: "hook_cells w = Some c"
    and w': "w' = \<lparr>hook_cells = Some (c\<lparr>slots := fetchData_resume (slots c) out\<rparr>),
                    pending = remove1 url (pending w)\<rparr>"
    using assms(1) by (auto simp: fetch_step_def split: option.splits if_splits)
  have nn: "fetchData_try out \<noteq> Inr None" using assms(2) Settle by simp
  have "fst (useFetch w' u) = fetchData_resume (slots c) out"
    using w' by (simp add: useFetch_fst_mounted)
  moreover have "fst (useFetch w u) = slots c" using c by (simp add: useFetch_fst_mounted)
  ultimately show ?thesis
    using resume_data [OF nn, of "slots c" url] Settle by simp
qed

lemma succeeded_Cons: "succeeded (ev # evs) = succeeded [ev] + succeeded evs"
  by (cases ev) (auto split: sum.splits)

lemma failed_Cons: "failed (ev # evs) = failed [ev] + failed evs"
  by (cases ev) (auto split: sum.splits)

lemma nonnull_bodies_Cons: "nonnull_bodies (ev # evs) = (nonnull_bodies [ev] \<and> nonnull_bodies evs)"
  by (cases ev) auto

lemma completed_split: "completed evs = succeeded evs + failed evs"
  by (induction evs rule: completed.induct) (auto split: sum.splits)

lemma run_populated:
  assumes "fetch_run w evs = Some w'" and "nonnull_bodies evs"
  shows "populated (data (fst (useFetch w' u)))
           = (populated (data (fst (useFetch w u))) \<or> 0 < succeeded evs)
         \<and> populated (error (fst (useFetch w' u)))
           = (populated (error (fst (useFetch w u))) \<or> 0 < failed evs)"
  using assms
proof (induction evs arbitrary: w)
  case Nil
  then show ?case by simp
next
  case (Cons ev evs)
  from Cons.prems(1) obtain w1
    where w1: "fetch_step w ev = Some w1" and run: "fetch_run w1 evs = Some w'"
    by (auto split: option.splits)
  have nn: "nonnull_bodies [ev]" "nonnull_bodies evs"
    using Cons.prems(2) nonnull_bodies_Cons [of ev evs] by auto
  have 1: "populated (data (fst (useFetch w1 u)))
             = (populated (data (fst (useFetch w u))) \<or> 0 < succeeded [ev])"
          "populated (error (fst (useFetch w1 u)))
             = (populated (error (fst (useFetch w u))) \<or> 0 < failed [ev])"
    using step_populated [OF w1 nn(1), of u] by auto
  have 2: "populated (data (fst (useFetch w' u)))
             = (populated (data (fst (useFetch w1 u))) \<or> 0 < succeeded evs)"
          "populated (error (fst (useFetch w' u)))
             = (populated (error (fst (useFetch w1 u))) \<or> 0 < failed evs)"
    using Cons.IH [OF run nn(2)] by auto
  show ?case
    using 1 2 succeeded_Cons [of ev evs] failed_Cons [of ev evs] by auto
qed

lemma url_change_step:
  assumes "hook_cells w = Some c" and "deps_changed same_url (fetch_deps c) url"
  shows "snd (useFetch w url) =
           \<lparr>hook_cells = Some \<lparr>slots = (slots c)\<lparr>loading := True\<rparr>, fetch_deps = Some url\<rparr>,
            pending = pending w @ [url]\<rparr>"
  using assms
  by (simp add: useFetch_def useFetch_render_def useFetch_effect_def useState_def
                setState_def Let_def)

lemma url_change_returns:
  assumes "hook_cells w = Some c" and "deps_changed same_url (fetch_deps c) url"
  shows "useFetch_returns (fetch_run w [Render url]) url = Some ((slots c)\<lparr>loading := True\<rparr>)"
  using url_change_step [OF assms]
  by (simp add: fetch_step_def useFetch_returns_def useFetch_fst_mounted)

lemma url_change_then_settle:
  assumes "hook_cells w = Some c" and "deps_changed same_url (fetch_deps c) url"
  shows "useFetch_returns (fetch_run w [Render url, Settle url out]) url =
           Some (fetchData_resume ((slots c)\<lparr>loading := True\<rparr>) out)"
  using url_change_step [OF assms]
  by (simp add: fetch_step_def useFetch_returns_def useFetch_fst_mounted)

lemma first_call_then_settle:
  "useFetch_returns (fetch_run fetch_init [Render url, Settle url out]) url =
     Some (fetchData_resume \<lparr>data = None, loading = True, error = None\<rparr> out)"
  by (simp add: fetch_step_def useFetch_def useFetch_render_def useFetch_effect_def
                deps_changed_def useState_def setState_def fetch_init_def
                useFetch_returns_def Let_def)

text \<open>
  Counterexample to C2 as stated: a successful request followed, after a URL change, by
  a failing one. Two requests have completed, and the hook returns \<open>loading\<close> false with
  both \<open>data\<close> and \<open>error\<close> populated, since nothing ever clears either of them.
\<close>

theorem useFetch_success_then_failure_both_populated:
  "useFetch_returns (fetch_run fetch_init success_then_failure) (UrlText ''/b'') =
     Some \<lparr>data = Some 1, loading = False, error = Some (TypeError ''Failed to fetch'')\<rparr>
   \<and> completed success_then_failure = 2
   \<and> \<not> exactly_one_populated
         \<lparr>data = Some (1::nat), loading = False, error = Some (TypeError ''Failed to fetch'')\<rparr>"
proof -
  have "completed success_then_failure = 2" by (simp add: success_then_failure_def)
  then show ?thesis
    by (simp add: success_then_failure_run useFetch_returns_def useFetch_fst_mounted
                  exactly_one_populated_def populated_def)
qed

text \<open>
  C2 (amended): in every run of the hook in which no successful answer carried the
  body \<^verbatim>\<open>null\<close>, whatever \<open>loading\<close> is, the \<open>data\<close> that the hook returns is populated
  exactly when some request has succeeded and the \<open>error\<close> exactly when some request has
  failed. So once at least one request has completed, exactly one of the two is
  populated if and only if the completed requests have all succeeded or have all
  failed; after a success and a failure both are populated.
\<close>

theorem useFetch_populated_by_outcomes:
  assumes "fetch_run fetch_init evs = Some w" and "nonnull_bodies evs"
  shows "populated (data (fst (useFetch w url))) = (0 < succeeded evs)
         \<and> populated (error (fst (useFetch w url))) = (0 < failed evs)
         \<and> exactly_one_populated (fst (useFetch w url))
             = ((0 < succeeded evs) \<noteq> (0 < failed evs))
         \<and> completed evs = succeeded evs + failed evs"
proof -
  have init: "fst (useFetch (fetch_init :: 'a fetch_world) url)
                = \<lparr>data = None, loading = True, error = None\<rparr>"
    by (simp add: useFetch_fst_fresh fetch_init_def)
  have "populated (data (fst (useFetch w url))) = (0 < succeeded evs)"
       "populated (error (fst (useFetch w url))) = (0 < failed evs)"
    using run_populated [OF assms, of url] init by (simp_all add: populated_def)
  then show ?thesis by (simp add: exactly_one_populated_def completed_split)
qed

text \<open>The amended C2 at the run above: one success, one failure, both populated.\<close>

theorem useFetch_populated_by_outcomes_witness:
  "fetch_run fetch_init success_then_failure =
     Some \<lparr>hook_cells = Some \<lparr>slots = \<lparr>data = Some 1, loading = False,
                                         error = Some (TypeError ''Failed to fetch'')\<rparr>,
                               fetch_deps = Some (UrlText ''/b'')\<rparr>,
           pending = []\<rparr>
   \<and> nonnull_bodies success_then_failure
   \<and> succeeded success_then_failure = 1 \<and> failed success_then_failure = 1
   \<and> populated (data (fst (useFetch
         \<lparr>hook_cells = Some \<lparr>slots = \<lparr>data = Some (1::nat), loading = False,
                                       error = Some (TypeError ''Failed to fetch'')\<rparr>,
                             fetch_deps = Some (UrlText ''/b'')\<rparr>,
          pending = []\<rparr> (UrlText ''/b''))))
   \<and> populated (error (fst (useFetch
         \<lparr>hook_cells = Some \<lparr>slots = \<lparr>data = Some (1::nat), loading = False,
                                       error = Some (TypeError ''Failed to fetch'')\<rparr>,
                             fetch_deps = Some (UrlText ''/b'')\<rparr>,
          pending = []\<rparr> (UrlText ''/b''))))"
proof -
  have n: "nonnull_bodies success_then_failure"
    by (simp add: success_then_failure_def fetchData_try_def)
  have s: "succeeded success_then_failure = 1" "failed success_then_failure = 1"
    by (simp_all add: success_then_failure_def fetchData_try_def)
  show ?thesis
    using useFetch_populated_by_outcomes [OF success_then_failure_run n, of "UrlText ''/b''"]
          success_then_failure_run n s
    by simp
qed

text \<open>
  Counterexample to C3 as stated: a failing request followed, after a URL change, by a
  successful one. What the hook returns in the end still holds the error of the first
  request.
\<close>

theorem useFetch_failure_then_success_keeps_error:
  "useFetch_returns (fetch_run fetch_init failure_then_success) (UrlText ''/b'') =
     Some \<lparr>data = Some 1, loading = False, error = Some (TypeError ''Failed to fetch'')\<rparr>
   \<and> error \<lparr>data = Some (1::nat), loading = False, error = Some (TypeError ''Failed to fetch'')\<rparr>
       \<noteq> None"
  by (simp add: failure_then_success_run useFetch_returns_def useFetch_fst_mounted)

text \<open>
  C3 (amended): the call with a changed URL returns the state as it was; its effect sets
  \<open>loading\<close> to true and issues the request, and leaves \<open>data\<close> and \<open>error\<close> alone, so
  the hook then returns \<open>loading\<close> true with the old \<open>data\<close> and \<open>error\<close>. When that
  request succeeds, the hook returns the new data, \<open>loading\<close> false and the \<open>error\<close> from
  before the URL change, so the error of an earlier failed request stays.
\<close>

theorem useFetch_url_change_sets_loading_only:
  assumes "hook_cells w = Some c" and "deps_changed same_url (fetch_deps c) url"
    and "fetchData_try out = Inr r"
  shows "fst (useFetch w url) = slots c
         \<and> useFetch_returns (fetch_run w [Render url]) url = Some ((slots c)\<lparr>loading := True\<rparr>)
         \<and> map_option pending (fetch_run w [Render url]) = Some (pending w @ [url])
         \<and> useFetch_returns (fetch_run w [Render url, Settle url out]) url
             = Some ((slots c)\<lparr>data := r, loading := False\<rparr>)"
  using url_change_step [OF assms(1,2)] url_change_returns [OF assms(1,2)]
        url_change_then_settle [OF assms(1,2), of out] assms(3)
        useFetch_fst_mounted [OF assms(1), of url]
  by (simp add: fetch_step_def fetchData_resume_def setState_def)

text \<open>The amended C3 at the state left by a failed request.\<close>

theorem useFetch_url_change_sets_loading_only_witness:
  "hook_cells after_failure
     = Some \<lparr>slots = \<lparr>data = None, loading = False, error = Some (TypeError ''Failed to fetch'')\<rparr>,
             fetch_deps = Some (UrlText ''/a'')\<rparr>
   \<and> deps_changed same_url (Some (UrlText ''/a'')) (UrlText ''/b'')
   \<and> useFetch_returns (fetch_run after_failure [Render (UrlText ''/b'')]) (UrlText ''/b'')
       = Some \<lparr>data = None, loading = True, error = Some (TypeError ''Failed to fetch'')\<rparr>
   \<and> useFetch_returns (fetch_run after_failure
        [Render (UrlText ''/b''),
         Settle (UrlText ''/b'') (Resolved \<lparr>status = 200, json = Inr (Some 1)\<rparr>)])
        (UrlText ''/b'')
       = Some \<lparr>data = Some 1, loading = False, error = Some (TypeError ''Failed to fetch'')\<rparr>"
proof -
  have c: "hook_cells after_failure
     = Some \<lparr>slots = \<lparr>data = None, loading = False, error = Some (TypeError ''Failed to fetch'')\<rparr>,
             fetch_deps = Some (UrlText ''/a'')\<rparr>"
    by (simp add: after_failure_def)
  have d: "deps_changed same_url
             (fetch_deps \<lparr>slots = \<lparr>data = None :: nat option, loading = False,
                                    error = Some (TypeError ''Failed to fetch'')\<rparr>,
                          fetch_deps = Some (UrlText ''/a'')\<rparr>) (UrlText ''/b'')"
    by (simp add: deps_changed_def)
  have t: "fetchData_try (Resolved \<lparr>status = 200, json = Inr (Some (1::nat))\<rparr>) = Inr (Some 1)"
    by (simp add: fetchData_try_def)
  show ?thesis using useFetch_url_change_sets_loading_only [OF c d t] c d by simp
qed

text \<open>
  C6: when a request fails with \<open>e\<close>, be it a rejected \<^verbatim>\<open>fetch\<close> or a body that does
  not parse, the hook then returns \<open>error\<close> set to \<open>e\<close>, \<open>loading\<close> false and \<open>data\<close> as
  before the request, for a hook that has run before as for a fresh one. The failure
  ends in the \<^verbatim>\<open>catch\<close> clause: the run goes on with a state, and nothing is thrown to
  the caller.
\<close>

theorem useFetch_failure_sets_error_keeps_data:
  assumes "hook_cells w = Some c" and "deps_changed same_url (fetch_deps c) url"
    and "fetchData_try out = Inl e"
  shows "fst (useFetch w url) = slots c
         \<and> useFetch_returns (fetch_run w [Render url, Settle url out]) url
           = Some ((slots c)\<lparr>error := Some e, loading := False\<rparr>)
         \<and> useFetch_returns (fetch_run fetch_init [Render url', Settle url' out]) url'
           = Some \<lparr>data = None, loading = False, error = Some e\<rparr>
         \<and> fetchData_resume s out = s\<lparr>error := Some e, loading := False\<rparr>
         \<and> fetchData_try (Rejected e' :: 'a fetch_outcome) = Inl e'
         \<and> fetchData_try (Resolved \<lparr>status = st, json = Inl e'\<rparr> :: 'a fetch_outcome) = Inl e'"
  using url_change_then_settle [OF assms(1,2), of out] assms(3)
        first_call_then_settle [of url' out] useFetch_fst_mounted [OF assms(1), of url]
  by (simp add: fetchData_resume_def fetchData_try_def setState_def)

text \<open>C6 at a body that fails to parse, after an earlier success.\<close>

theorem useFetch_failure_sets_error_keeps_data_witness:
  "hook_cells after_success
     = Some \<lparr>slots = \<lparr>data = Some 1, loading = False, error = None\<rparr>,
             fetch_deps = Some (UrlText ''/a'')\<rparr>
   \<and> deps_changed same_url (Some (UrlText ''/a'')) (UrlText ''/b'')
   \<and> fetchData_try (Resolved \<lparr>status = 200, json = Inl (SyntaxError ''Unexpected token'')\<rparr>
        :: nat fetch_outcome) = Inl (SyntaxError ''Unexpected token'')
   \<and> useFetch_returns (fetch_run after_success
        [Render (UrlText ''/b''),
         Settle (UrlText ''/b'')
           (Resolved \<lparr>status = 200, json = Inl (SyntaxError ''Unexpected token'')\<rparr>)])
        (UrlText ''/b'')
       = Some \<lparr>data = Some 1, loading = False, error = Some (SyntaxError ''Unexpected token'')\<rparr>"
proof -
  have c: "hook_cells after_success
     = Some \<lparr>slots = \<lparr>data = Some 1, loading = False, error = None\<rparr>,
             fetch_deps = Some (UrlText ''/a'')\<rparr>"
    by (simp add: after_success_def)
  have d: "deps_changed same_url
             (fetch_deps \<lparr>slots = \<lparr>data = Some (1::nat), loading = False, error = None\<rparr>,
                          fetch_deps = Some (UrlText ''/a'')\<rparr>) (UrlText ''/b'')"
    by (simp add: deps_changed_def)
  have t: "fetchData_try (Resolved \<lparr>status = 200, json = Inl (SyntaxError ''Unexpected token'')\<rparr>
             :: nat fetch_outcome) = Inl (SyntaxError ''Unexpected token'')"
    by (simp add: fetchData_try_def)
  show ?thesis
    using useFetch_failure_sets_error_keeps_data
            [OF c d t, THEN conjunct2, THEN conjunct1] c d t
    by simp
qed

text \<open>
  C9: an answer of any status code \<open>st\<close> whose body parses is a success: the hook then
  returns the parsed body as \<open>data\<close> and \<open>error\<close> as it was (empty for a fresh hook).
  The status code is never read: the \<^verbatim>\<open>try\<close> block yields what \<^verbatim>\<open>response.json()\<close>
  yields, and \<open>error\<close> is written exactly when the \<^verbatim>\<open>try\<close> block throws.
\<close>

theorem useFetch_ignores_status:
  assumes "hook_cells w = Some c" and "deps_changed same_url (fetch_deps c) url"
  shows "useFetch_returns
           (fetch_run w [Render url, Settle url (Resolved \<lparr>status = st, json = Inr r\<rparr>)]) url
           = Some ((slots c)\<lparr>data := r, loading := False\<rparr>)
         \<and> useFetch_returns (fetch_run fetch_init
              [Render url', Settle url' (Resolved \<lparr>status = st, json = Inr r\<rparr>)]) url'
           = Some \<lparr>data = r, loading = False, error = None\<rparr>
         \<and> fetchData_try (Resolved response :: 'a fetch_outcome) = json response
         \<and> error (fetchData_resume s out)
           = (case fetchData_try out of Inl err \<Rightarrow> Some err | Inr result \<Rightarrow> error s)"
proof -
  have 1: "useFetch_returns
           (fetch_run w [Render url, Settle url (Resolved \<lparr>status = st, json = Inr r\<rparr>)]) url
           = Some ((slots c)\<lparr>data := r, loading := False\<rparr>)"
    using url_change_then_settle [OF assms, of "Resolved \<lparr>status = st, json = Inr r\<rparr>"]
    by (simp add: fetchData_resume_def fetchData_try_def setState_def)
  have 2: "useFetch_returns (fetch_run fetch_init
              [Render url', Settle url' (Resolved \<lparr>status = st, json = Inr r\<rparr>)]) url'
           = Some \<lparr>data = r, loading = False, error = None\<rparr>"
    using first_call_then_settle [of url' "Resolved \<lparr>status = st, json = Inr r\<rparr>"]
    by (simp add: fetchData_resume_def fetchData_try_def setState_def)
  have 3: "error (fetchData_resume s out)
           = (case fetchData_try out of Inl err \<Rightarrow> Some err | Inr result \<Rightarrow> error s)"
    by (cases "fetchData_try out") (simp_all add: fetchData_resume_def setState_def)
  show ?thesis using 1 2 3 by (simp add: fetchData_try_def)
qed

text \<open>C9 at status 404.\<close>

theorem useFetch_ignores_status_witness:
  "hook_cells after_success
     = Some \<lparr>slots = \<lparr>data = Some 1, loading = False, error = None\<rparr>,
             fetch_deps = Some (UrlText ''/a'')\<rparr>
   \<and> deps_changed same_url (Some (UrlText ''/a'')) (UrlText ''/b'')
   \<and> useFetch_returns (fetch_run after_success
        [Render (UrlText ''/b''),
         Settle (UrlText ''/b'') (Resolved \<lparr>status = 404, json = Inr (Some 7)\<rparr>)])
        (UrlText ''/b'')
       = Some \<lparr>data = Some 7, loading = False, error = None\<rparr>"
proof -
  have c: "hook_cells after_success
     = Some \<lparr>slots = \<lparr>data = Some 1, loading = False, error = None\<rparr>,
             fetch_deps = Some (UrlText ''/a'')\<rparr>"
    by (simp add: after_success_def)
  have d: "deps_changed same_url
             (fetch_deps \<lparr>slots = \<lparr>data = Some (1::nat), loading = False, error = None\<rparr>,
                          fetch_deps = Some (UrlText ''/a'')\<rparr>) (UrlText ''/b'')"
    by (simp add: deps_changed_def)
  show ?thesis
    using useFetch_ignores_status [OF c d, where st = 404 and r = "Some 7", THEN conjunct1] c d
    by simp
qed


section \<open>Properties of useMediaQuery\<close>

text \<open>
  C4 (amended): the first value returned is \<open>False\<close> for every query and every
  environment; the effect that runs right after the first call writes the current
  answer of the environment, so the next call returns whether the query matches.
\<close>

theorem useMediaQuery_first_value_false:
  "fst (useMediaQuery matchMedia None query) = False
   \<and> matches (snd (useMediaQuery matchMedia None query)) = matchMedia query
   \<and> fst (useMediaQuery matchMedia (Some (snd (useMediaQuery matchMedia None query))) query)
       = matchMedia query"
  by (simp add: useMediaQuery_def useMediaQuery_render_def useMediaQuery_effect_def
                deps_changed_def useState_def Let_def)

text \<open>
  Counterexample to C4 as stated: in an environment where the query matches, the first
  value the caller observes is \<open>False\<close>.
\<close>

theorem useMediaQuery_first_value_ignores_environment:
  "wide_viewport ''(min-width: 768px)'' = True
   \<and> fst (useMediaQuery wide_viewport None ''(min-width: 768px)'') = False"
  by (simp add: wide_viewport_def useMediaQuery_def useMediaQuery_render_def useState_def
                Let_def)

section \<open>Properties of useToggle\<close>

lemma useToggle_render_toggle:
  "fst (useToggle_render (Some (toggle c)) arg) = (\<not> fst (useToggle_render (Some c) arg))"
  by (simp add: useToggle_render_def toggle_def useState_def Let_def)

lemma useToggle_render_again:
  "fst (useToggle_render (Some (snd (useToggle_render (Some c) arg'))) arg)
     = fst (useToggle_render (Some c) arg)"
  by (simp add: useToggle_render_def useState_def Let_def)

lemma toggle_run_result:
  "fst (useToggle_render (Some (toggle_run c evs)) arg)
     = (Not ^^ toggles evs) (fst (useToggle_render (Some c) arg))"
proof (induction c evs rule: toggle_run.induct)
  case (1 c)
  show ?case by simp
next
  case (2 c evs)
  show ?case using "2.IH" by (simp add: useToggle_render_toggle funpow_swap1)
next
  case (3 c arg' evs)
  show ?case using "3.IH" by (simp add: useToggle_render_again)
qed

lemma useToggle_mounted:
  "fst (useToggle_render (Some (snd (useToggle_render None arg))) arg')
     = (case arg of None \<Rightarrow> False | Some b \<Rightarrow> b)"
  by (simp add: useToggle_render_def useState_def Let_def)

text \<open>
  C8: after \<open>n\<close> calls of \<^verbatim>\<open>toggle()\<close>, however they are spread over the calls of the
  hook, the state is the initial state negated \<open>n\<close> times; from \<open>False\<close>, one toggle gives
  \<open>True\<close> and two give \<open>False\<close>, also when both are queued before the hook is called
  again.
\<close>

theorem useToggle_n_toggles:
  "useToggle_after arg evs = (Not ^^ toggles evs) (case arg of None \<Rightarrow> False | Some b \<Rightarrow> b)
   \<and> useToggle_after (Some False) [Toggle] = True
   \<and> useToggle_after (Some False) [Toggle, Toggle] = False
   \<and> useToggle_after (Some False) [Toggle, Rerender (Some False), Toggle] = False
   \<and> useToggle_after None [Toggle] = True"
proof -
  have g: "useToggle_after a es = (Not ^^ toggles es) (case a of None \<Rightarrow> False | Some b \<Rightarrow> b)"
    for a es
    unfolding useToggle_after_def by (simp add: toggle_run_result useToggle_mounted)
  show ?thesis by (simp add: g)
qed


section \<open>Properties of useDebounce\<close>

lemma timeout_of_small: "d < 2 ^ 31 \<Longrightarrow> timeout_of d = max 0 d"
  by (simp add: timeout_of_def)

lemma useDebounce_fst_mounted:
  assumes "debounce_hook w = Some c"
  shows "fst (useDebounce call w v d) = debouncedValue c"
  using assms by (simp add: useDebounce_def useDebounce_render_def useState_def Let_def)

lemma useDebounce_fst_fresh:
  assumes "debounce_hook w = None" and "call v = None"
  shows "fst (useDebounce call w v d) = v"
  using assms
  by (simp add: useDebounce_def useDebounce_render_def useState_def as_arg_def Let_def)

lemma useDebounce_fst_clock: "fst (useDebounce call (w\<lparr>clock := t\<rparr>) v d) = fst (useDebounce call w v d)"
  by (simp add: useDebounce_def useDebounce_render_def Let_def split: prod.splits)

lemma useDebounce_mount:
  assumes "debounce_hook w = None"
  shows "snd (useDebounce call w v d) =
           w\<lparr>timers := timers w
                         @ [\<lparr>handle = next_handle w, due = clock w + timeout_of d, captured = v\<rparr>],
             next_handle := Suc (next_handle w),
             debounce_hook := Some \<lparr>debouncedValue = fst (useDebounce call w v d),
                                   debounce_deps = Some (v, d),
                                   cleanup = Some (next_handle w)\<rparr>\<rparr>"
  using assms
  by (simp add: useDebounce_def useDebounce_render_def useDebounce_effect_def deps_changed_def
                useState_def setTimeout_def Let_def)

lemma useDebounce_same:
  assumes "debounce_hook w = Some c" and "debounce_deps c = Some (v, d)"
  shows "snd (useDebounce call w v d) = w"
  using assms
  by (simp add: useDebounce_def useDebounce_render_def useDebounce_effect_def deps_changed_def
                useState_def Let_def)

lemma useDebounce_changed:
  assumes "debounce_hook w = Some c" and "debounce_deps c \<noteq> Some (v, d)"
    and "cleanup c = Some h"
  shows "snd (useDebounce call w v d) =
           w\<lparr>timers := filter (\<lambda>t. handle t \<noteq> h) (timers w)
                         @ [\<lparr>handle = next_handle w, due = clock w + timeout_of d, captured = v\<rparr>],
             next_handle := Suc (next_handle w),
             debounce_hook := Some (c\<lparr>debounce_deps := Some (v, d),
                                     cleanup := Some (next_handle w)\<rparr>)\<rparr>"
  using assms
  by (cases "debounce_deps c")
     (simp_all add: useDebounce_def useDebounce_render_def useDebounce_effect_def
                    deps_changed_def useState_def setTimeout_def clearTimeout_def Let_def)

lemma useDebounce_changed_no_cleanup:
  assumes "debounce_hook w = Some c" and "debounce_deps c \<noteq> Some (v, d)"
    and "cleanup c = None"
  shows "snd (useDebounce call w v d) =
           w\<lparr>timers := timers w
                         @ [\<lparr>handle = next_handle w, due = clock w + timeout_of d, captured = v\<rparr>],
             next_handle := Suc (next_handle w),
             debounce_hook := Some (c\<lparr>debounce_deps := Some (v, d),
                                     cleanup := Some (next_handle w)\<rparr>)\<rparr>"
  using assms
  by (cases "debounce_deps c")
     (simp_all add: useDebounce_def useDebounce_render_def useDebounce_effect_def
                    deps_changed_def useState_def setTimeout_def clearTimeout_def Let_def)

lemma one_timer_call:
  assumes "one_timer w"
  shows "one_timer (snd (useDebounce call (w\<lparr>clock := t\<rparr>) v d))"
proof (cases "debounce_hook w")
  case None
  then have "timers w = []" using assms by (auto simp: one_timer_def)
  then show ?thesis using None useDebounce_mount [of "w\<lparr>clock := t\<rparr>" call v d]
    by (simp add: one_timer_def)
next
  case (Some c)
  show ?thesis
  proof (cases "debounce_deps c = Some (v, d)")
    case True
    then show ?thesis using Some assms useDebounce_same [of "w\<lparr>clock := t\<rparr>" c v d call]
      by (simp add: one_timer_def)
  next
    case False
    show ?thesis
    proof (cases "cleanup c")
      case None
      then have "timers w = []" using assms Some by (auto simp: one_timer_def)
      then show ?thesis
        using Some False None useDebounce_changed_no_cleanup [of "w\<lparr>clock := t\<rparr>" c v d call]
        by (simp add: one_timer_def)
    next
      case (Some h)
      have "filter (\<lambda>t. handle t \<noteq> h) (timers w) = []"
        using assms \<open>debounce_hook w = Some c\<close> Some
        by (auto simp: one_timer_def)
      then show ?thesis
        using \<open>debounce_hook w = Some c\<close> False Some
              useDebounce_changed [of "w\<lparr>clock := t\<rparr>" c v d h call]
        by (simp add: one_timer_def)
    qed
  qed
qed

lemma one_timer_fire:
  assumes "one_timer w" and "find (\<lambda>x. handle x = h) (timers w) = Some tm"
  shows "timers w = [tm]" and "handle tm = h"
proof -
  from assms(2) have "timers w \<noteq> []" by auto
  then obtain tm' where one: "timers w = [tm']"
    using assms(1) by (auto simp: one_timer_def)
  then show "timers w = [tm]" using assms(2) by (auto split: if_splits)
  then show "handle tm = h" using assms(2) by (auto split: if_splits)
qed

lemma one_timer_step:
  assumes "one_timer w" and "debounce_step call w ev = Some w'"
  shows "one_timer w'"
proof (cases ev)
  case (Call t v d)
  then show ?thesis using assms one_timer_call [OF assms(1), of call t v d]
    by (auto simp: debounce_step_def split: if_splits)
next
  case (Fire t h)
  then obtain tm where f: "find (\<lambda>x. handle x = h) (timers w) = Some tm"
    and w': "w' = timer_callback call (clearTimeout (w\<lparr>clock := t\<rparr>) h) (captured tm)"
    using assms(2) by (auto simp: debounce_step_def split: option.splits if_splits)
  have "timers w = [tm]" "handle tm = h" using one_timer_fire [OF assms(1) f] by auto
  then show ?thesis using w'
    by (simp add: one_timer_def timer_callback_def clearTimeout_def Let_def
             split: option.splits)
qed

lemma one_timer_run:
  assumes "one_timer w" and "debounce_run call w evs = Some w'"
  shows "one_timer w'"
  using assms
proof (induction evs arbitrary: w)
  case Nil
  then show ?case by simp
next
  case (Cons ev evs)
  from Cons.prems(2) obtain w1 where w1: "debounce_step call w ev = Some w1"
    and run: "debounce_run call w1 evs = Some w'"
    by (auto split: option.splits)
  have "one_timer w1" using one_timer_step [OF Cons.prems(1) w1] .
  then show ?case using Cons.IH run by blast
qed

lemma one_timer_length: "one_timer w \<Longrightarrow> length (timers w) \<le> 1"
  by (auto simp: one_timer_def)

lemma one_timer_init: "one_timer debounce_init"
  by (simp add: one_timer_def debounce_init_def)

lemma burst_start:
  assumes "one_timer w" and "changes w v d" and "d < 2 ^ 31" and "call v = None"
  shows "burst_inv call (length (published w)) d (fst (useDebounce call w v d)) (t, v)
           (snd (useDebounce call (w\<lparr>clock := t\<rparr>) v d))"
proof (cases "debounce_hook w")
  case None
  then have "timers w = []" using assms(1) by (auto simp: one_timer_def)
  then show ?thesis
    using None useDebounce_mount [of "w\<lparr>clock := t\<rparr>" call v d] assms(3,4)
    by (simp add: burst_inv_def timeout_of_small useDebounce_fst_clock)
next
  case (Some c)
  then have changed: "debounce_deps c \<noteq> Some (v, d)"
    using assms(2) by (auto simp: changes_def deps_changed_def)
  have x0: "fst (useDebounce call w v d) = debouncedValue c"
    using Some by (rule useDebounce_fst_mounted)
  show ?thesis
  proof (cases "cleanup c")
    case None
    then have "timers w = []" using assms(1) Some by (auto simp: one_timer_def)
    then show ?thesis
      using useDebounce_changed_no_cleanup [of "w\<lparr>clock := t\<rparr>" c v d call] Some changed None
            assms(3,4) x0
      by (simp add: burst_inv_def timeout_of_small)
  next
    case (Some h)
    have "filter (\<lambda>x. handle x \<noteq> h) (timers w) = []"
      using assms(1) \<open>debounce_hook w = Some c\<close> Some by (auto simp: one_timer_def)
    then show ?thesis
      using useDebounce_changed [of "w\<lparr>clock := t\<rparr>" c v d h call] \<open>debounce_hook w = Some c\<close>
            changed Some assms(3,4) x0
      by (simp add: burst_inv_def timeout_of_small)
  qed
qed

lemma burst_call_same:
  assumes "burst_inv call n d x0 (t0, v0) w" and "clock w \<le> t"
  shows "burst_inv call n d x0 (t0, v0) (snd (useDebounce call (w\<lparr>clock := t\<rparr>) v0 d))"
proof -
  from assms(1) obtain c where c: "debounce_hook w = Some c" "debounce_deps c = Some (v0, d)"
    by (auto simp: burst_inv_def)
  have "snd (useDebounce call (w\<lparr>clock := t\<rparr>) v0 d) = w\<lparr>clock := t\<rparr>"
    using useDebounce_same [of "w\<lparr>clock := t\<rparr>" c v0 d call] c by simp
  then show ?thesis using assms by (fastforce simp: burst_inv_def)
qed

lemma burst_call_update:
  assumes "burst_inv call n d x0 (t0, v0) w" and "clock w \<le> t" and "v \<noteq> v0"
    and "t < t0 + d" and "d < 2 ^ 31" and "call v = None"
  shows "burst_inv call n d x0 (t, v) (snd (useDebounce call (w\<lparr>clock := t\<rparr>) v d))"
proof -
  from assms(1) obtain c where c: "debounce_hook w = Some c" "debounce_deps c = Some (v0, d)"
    and n: "n \<le> length (published w)"
    and pub: "drop n (published w) \<noteq> [] \<Longrightarrow>
                \<forall>(t', v') \<in> set (drop n (published w)). v' = v0 \<and> t0 + d \<le> t' \<and> t' \<le> clock w"
    and arm: "drop n (published w) = [] \<Longrightarrow>
                debouncedValue c = x0 \<and>
                (\<exists>h. cleanup c = Some h \<and>
                     timers w = [\<lparr>handle = h, due = t0 + max 0 d, captured = v0\<rparr>])"
    by (auto simp: burst_inv_def)
  have nopub: "drop n (published w) = []"
  proof (cases "drop n (published w)")
    case Nil
    then show ?thesis .
  next
    case (Cons p ps)
    obtain t' v' where "p = (t', v')" by (cases p)
    then have "t0 + d \<le> t'" "t' \<le> clock w" using pub Cons by auto
    then show ?thesis using assms(2,4) by linarith
  qed
  then obtain h where h: "cleanup c = Some h"
    "timers w = [\<lparr>handle = h, due = t0 + max 0 d, captured = v0\<rparr>]"
    and dv: "debouncedValue c = x0"
    using arm by auto
  have changed: "debounce_deps c \<noteq> Some (v, d)" using c assms(3) by simp
  have "filter (\<lambda>x. handle x \<noteq> h) (timers w) = []" using h by simp
  then show ?thesis
    using useDebounce_changed [of "w\<lparr>clock := t\<rparr>" c v d h call] c changed h nopub n dv
          assms(5,6)
    by (simp add: burst_inv_def timeout_of_small)
qed

lemma burst_fire:
  assumes "burst_inv call n d x0 prev w" and "debounce_step call w (Fire t h) = Some w'"
  shows "burst_inv call n d x0 prev w'"
proof -
  obtain t0 v0 where prev: "prev = (t0, v0)" by (cases prev)
  from assms(2) obtain tm where f: "find (\<lambda>x. handle x = h) (timers w) = Some tm"
    and t: "clock w \<le> t" "due tm \<le> t"
    and w': "w' = timer_callback call (clearTimeout (w\<lparr>clock := t\<rparr>) h) (captured tm)"
    by (auto simp: debounce_step_def split: option.splits if_splits)
  from f have ne: "timers w \<noteq> []" by auto
  from assms(1) ne prev obtain c h' where c: "debounce_hook w = Some c"
    "debounce_deps c = Some (v0, d)" "t0 \<le> clock w" "cleanup c = Some h'"
    "timers w = [\<lparr>handle = h', due = t0 + max 0 d, captured = v0\<rparr>]"
    and n: "n \<le> length (published w)" and nopub: "drop n (published w) = []"
    and plain: "call v0 = None"
    by (auto simp: burst_inv_def)
  have tm: "tm = \<lparr>handle = h', due = t0 + max 0 d, captured = v0\<rparr>" "h' = h"
    using f c(5) by (auto split: if_splits)
  have late: "t0 + d \<le> t" using t(2) tm by simp
  have w'': "w' = w\<lparr>clock := t, timers := [],
                    debounce_hook := Some (c\<lparr>debouncedValue := v0\<rparr>),
                    published := published w @ [(t, v0)]\<rparr>"
    using w' tm c plain
    by (simp add: timer_callback_def clearTimeout_def setState_def as_arg_def Let_def)
  have "drop n (published w') = [(t, v0)]" using w'' n nopub by simp
  then show ?thesis using w'' prev c t(1) late n plain by (simp add: burst_inv_def)
qed

lemma burst_step:
  assumes "burst_inv call n d x0 prev w" and "debounce_step call w ev = Some w'"
    and "rapid d prev [ev]" and "d < 2 ^ 31" and "no_functions call [ev]"
  shows "burst_inv call n d x0 (last_update prev [ev]) w'"
proof (cases ev)
  case (Fire t h)
  have "burst_inv call n d x0 prev w'" using assms(1,2) unfolding Fire by (rule burst_fire)
  then show ?thesis using Fire by simp
next
  case (Call t v delay)
  obtain t0 v0 where prev: "prev = (t0, v0)" by (cases prev)
  have dl: "delay = d" using assms(3) Call by simp
  have plain: "call v = None" using assms(5) Call by simp
  have t: "clock w \<le> t" and w': "w' = snd (useDebounce call (w\<lparr>clock := t\<rparr>) v d)"
    using assms(2) Call dl by (auto simp: debounce_step_def split: if_splits)
  have inv: "burst_inv call n d x0 (t0, v0) w" using assms(1) prev by simp
  show ?thesis
  proof (cases "v = v0")
    case True
    have "burst_inv call n d x0 (t0, v0) w'"
      unfolding w' True using inv t by (rule burst_call_same)
    then show ?thesis using Call prev True by simp
  next
    case False
    then have lt: "t < t0 + d" using assms(3) Call prev by simp
    have "burst_inv call n d x0 (t, v) w'"
      unfolding w' using inv t False lt assms(4) plain by (rule burst_call_update)
    then show ?thesis using Call prev False by simp
  qed
qed

lemma rapid_Cons:
  "rapid d prev (ev # evs) = (rapid d prev [ev] \<and> rapid d (last_update prev [ev]) evs)"
  by (cases ev) auto

lemma no_functions_Cons:
  "no_functions call (ev # evs) = (no_functions call [ev] \<and> no_functions call evs)"
  by (cases ev) auto

lemma last_update_Cons: "last_update prev (ev # evs) = last_update (last_update prev [ev]) evs"
  by (cases ev) auto

lemma burst_run:
  assumes "burst_inv call n d x0 prev w" and "debounce_run call w evs = Some w'"
    and "rapid d prev evs" and "d < 2 ^ 31" and "no_functions call evs"
  shows "burst_inv call n d x0 (last_update prev evs) w'"
  using assms(1,2,3,5)
proof (induction evs arbitrary: w prev)
  case Nil
  then show ?case by simp
next
  case (Cons ev evs)
  from Cons.prems(2) obtain w1 where w1: "debounce_step call w ev = Some w1"
    and run: "debounce_run call w1 evs = Some w'"
    by (auto split: option.splits)
  have r: "rapid d prev [ev]" "rapid d (last_update prev [ev]) evs"
    using Cons.prems(3) rapid_Cons [of d prev ev evs] by auto
  have nf: "no_functions call [ev]" "no_functions call evs"
    using Cons.prems(4) no_functions_Cons [of call ev evs] by auto
  have "burst_inv call n d x0 (last_update prev [ev]) w1"
    using burst_step [OF Cons.prems(1) w1 r(1) assms(4) nf(1)] .
  then have "burst_inv call n d x0 (last_update (last_update prev [ev]) evs) w'"
    using Cons.IH run r(2) nf(2) by blast
  then show ?case using last_update_Cons [of prev ev evs] by simp
qed

lemma burst_published:
  assumes "burst_inv call n d x0 prev w"
  shows "list_all (\<lambda>(t, v). v = snd prev \<and> fst prev + d \<le> t) (drop n (published w))"
    and "fst (useDebounce call w v' d') = (if drop n (published w) = [] then x0 else snd prev)"
    and "map (\<lambda>tm. (due tm, captured tm)) (timers w)
           = (if drop n (published w) = [] then [(fst prev + max 0 d, snd prev)] else [])"
proof -
  from assms obtain c where c: "debounce_hook w = Some c"
    and cases: "(drop n (published w) = [] \<and> debouncedValue c = x0 \<and>
            (\<exists>h. cleanup c = Some h \<and>
                 timers w = [\<lparr>handle = h, due = fst prev + max 0 d, captured = snd prev\<rparr>]))
           \<or>
           (drop n (published w) \<noteq> [] \<and> debouncedValue c = snd prev \<and> timers w = [] \<and>
            (\<forall>(t, v) \<in> set (drop n (published w)).
                v = snd prev \<and> fst prev + d \<le> t \<and> t \<le> clock w))"
    by (auto simp: burst_inv_def)
  show "list_all (\<lambda>(t, v). v = snd prev \<and> fst prev + d \<le> t) (drop n (published w))"
    using cases by (auto simp: list_all_iff)
  show "fst (useDebounce call w v' d') = (if drop n (published w) = [] then x0 else snd prev)"
    using cases useDebounce_fst_mounted [OF c, of call v' d'] by auto
  show "map (\<lambda>tm. (due tm, captured tm)) (timers w)
           = (if drop n (published w) = [] then [(fst prev + max 0 d, snd prev)] else [])"
    using cases by auto
qed

lemma debounce_run_take:
  assumes "debounce_run call w evs = Some w'"
  shows "\<exists>wk. debounce_run call w (take k evs) = Some wk"
  using assms
proof (induction evs arbitrary: w k)
  case Nil
  then show ?case by simp
next
  case (Cons ev evs)
  then show ?case by (cases k) (auto split: option.splits)
qed

lemmas debounce_defs = debounce_init_def debounce_step_def useDebounce_def
  useDebounce_render_def useDebounce_effect_def deps_changed_def useState_def setState_def
  as_arg_def call_sample_def timeout_of_def setTimeout_def clearTimeout_def timer_callback_def
  Let_def

lemma settled_hook_run:
  "debounce_run call_sample debounce_init settled_hook = Some after_settled_hook"
  by (simp add: settled_hook_def after_settled_hook_def debounce_defs)

lemma three_rapid_updates_run:
  "debounce_run call_sample after_settled_hook (Call 1000 (Num 2) 300 # two_more_updates)
     = Some after_three_rapid_updates"
  by (simp add: two_more_updates_def after_settled_hook_def after_three_rapid_updates_def
                debounce_defs)

lemma overlong_delay_run:
  "debounce_run call_sample debounce_init (Call 0 (Num 1) 2147483648 # overlong_delay)
     = Some after_overlong_delay"
  by (simp add: overlong_delay_def after_overlong_delay_def debounce_defs)

lemma function_update_run:
  "debounce_run call_sample debounce_init (Call 0 (Num 1) 300 # function_update)
     = Some after_function_update"
  by (simp add: function_update_def after_function_update_def debounce_defs)

text \<open>
  Counterexample to C7 as stated. With a delay of \<open>2 ^ 31\<close> milliseconds, which the
  platform does not honour, two updates 10 milliseconds apart are both published, each 4
  milliseconds after it was made: the first value is published although it is not the
  last, and the last is published long before the delay has passed. And with a delay
  of 300 milliseconds, an update to a function publishes what the function returns, not
  the function.
\<close>

theorem useDebounce_overlong_delay_publishes_early:
  "debounce_run call_sample debounce_init (Call 0 (Num 1) 2147483648 # overlong_delay)
     = Some after_overlong_delay
   \<and> rapid 2147483648 (0, Num 1) overlong_delay
   \<and> last_update (0, Num 1) overlong_delay = (10, Num 2)
   \<and> published after_overlong_delay = [(4, Num 1), (14, Num 2)]
   \<and> \<not> list_all (\<lambda>(t', v'). v' = Num 2 \<and> 10 + 2147483648 \<le> t')
          (published after_overlong_delay)
   \<and> debounce_run call_sample debounce_init (Call 0 (Num 1) 300 # function_update)
     = Some after_function_update
   \<and> rapid 300 (0, Num 1) function_update
   \<and> last_update (0, Num 1) function_update = (100, Thunk 5)
   \<and> published after_function_update = [(400, Num 5)]
   \<and> \<not> list_all (\<lambda>(t', v'). v' = Thunk 5 \<and> 100 + 300 \<le> t')
          (published after_function_update)"
proof -
  have 1: "rapid 2147483648 (0, Num 1) overlong_delay"
    "last_update (0, Num 1) overlong_delay = (10, Num 2)"
    by (simp_all add: overlong_delay_def)
  have 2: "published after_overlong_delay = [(4, Num 1), (14, Num 2)]"
    by (simp add: after_overlong_delay_def)
  have 3: "rapid 300 (0, Num 1) function_update"
    "last_update (0, Num 1) function_update = (100, Thunk 5)"
    by (simp_all add: function_update_def)
  have 4: "published after_function_update = [(400, Num 5)]"
    by (simp add: after_function_update_def)
  show ?thesis using 1 2 3 4 overlong_delay_run function_update_run by simp
qed

text \<open>
  C7 (amended): in every run of the debouncer, at every moment, at most one timer is
  armed. Take any state the hook can be in and a sequence of updates from there, none of
  them to a function, with a delay below \<open>2 ^ 31\<close> milliseconds, in which the value
  changes each time sooner than the delay after the change before. Then every value
  published from the first of these updates on is the last value of the sequence, and it
  is published \<open>delay\<close> or more after the last update. Until then the hook keeps
  returning what it returned at the first of these updates, and the timer of the last
  update is the one armed; from then on the hook returns the last value and no timer is
  armed.
\<close>

theorem useDebounce_rapid_updates_publish_last:
  assumes "debounce_run call debounce_init evs0 = Some w0"
    and "debounce_run call w0 (Call t v d # evs) = Some w"
  shows "(\<forall>k. \<exists>wk. debounce_run call w0 (take k (Call t v d # evs)) = Some wk
                  \<and> length (timers wk) \<le> 1)
         \<and> (changes w0 v d \<and> rapid d (t, v) evs \<and> d < 2 ^ 31
              \<and> no_functions call (Call t v d # evs) \<longrightarrow>
              list_all (\<lambda>(t', v'). v' = snd (last_update (t, v) evs)
                                   \<and> fst (last_update (t, v) evs) + d \<le> t')
                       (drop (length (published w0)) (published w))
              \<and> fst (useDebounce call w v' d')
                  = (if drop (length (published w0)) (published w) = []
                     then fst (useDebounce call w0 v d)
                     else snd (last_update (t, v) evs))
              \<and> map (\<lambda>tm. (due tm, captured tm)) (timers w)
                  = (if drop (length (published w0)) (published w) = []
                     then [(fst (last_update (t, v) evs) + max 0 d,
                            snd (last_update (t, v) evs))]
                     else []))"
proof (intro conjI allI impI)
  have one0: "one_timer w0" using one_timer_run [OF one_timer_init assms(1)] .
  fix k
  obtain wk where wk: "debounce_run call w0 (take k (Call t v d # evs)) = Some wk"
    using debounce_run_take [OF assms(2)] by blast
  then have "one_timer wk" using one_timer_run [OF one0] by blast
  then show "\<exists>wk. debounce_run call w0 (take k (Call t v d # evs)) = Some wk
                \<and> length (timers wk) \<le> 1"
    using wk one_timer_length by blast
next
  assume a: "changes w0 v d \<and> rapid d (t, v) evs \<and> d < 2 ^ 31
               \<and> no_functions call (Call t v d # evs)"
  have one0: "one_timer w0" using one_timer_run [OF one_timer_init assms(1)] .
  from assms(2) obtain w1 where w1: "debounce_step call w0 (Call t v d) = Some w1"
    and run: "debounce_run call w1 evs = Some w"
    by (auto split: option.splits)
  have plain: "call v = None" "no_functions call evs" using a by auto
  have "w1 = snd (useDebounce call (w0\<lparr>clock := t\<rparr>) v d)"
    using w1 by (auto simp: debounce_step_def split: if_splits)
  then have "burst_inv call (length (published w0)) d (fst (useDebounce call w0 v d)) (t, v) w1"
    using burst_start [OF one0, of v d call t] a plain by simp
  then have inv: "burst_inv call (length (published w0)) d (fst (useDebounce call w0 v d))
                    (last_update (t, v) evs) w"
    using burst_run [OF _ run] a plain by blast
  show "list_all (\<lambda>(t', v'). v' = snd (last_update (t, v) evs)
                                   \<and> fst (last_update (t, v) evs) + d \<le> t')
                       (drop (length (published w0)) (published w))"
    using inv by (rule burst_published(1))
  show "fst (useDebounce call w v' d')
          = (if drop (length (published w0)) (published w) = []
             then fst (useDebounce call w0 v d)
             else snd (last_update (t, v) evs))"
    using inv by (rule burst_published(2))
  show "map (\<lambda>tm. (due tm, captured tm)) (timers w)
          = (if drop (length (published w0)) (published w) = []
             then [(fst (last_update (t, v) evs) + max 0 d, snd (last_update (t, v) evs))]
             else [])"
    using inv by (rule burst_published(3))
qed

text \<open>The amended C7 at three rapid updates of a hook that had settled on its first
  value: of the three only the last value is published, 300 milliseconds after the last
  update, and the hook then returns it.\<close>

theorem useDebounce_rapid_updates_publish_last_witness:
  "debounce_run call_sample debounce_init settled_hook = Some after_settled_hook
   \<and> debounce_run call_sample after_settled_hook (Call 1000 (Num 2) 300 # two_more_updates)
       = Some after_three_rapid_updates
   \<and> changes after_settled_hook (Num 2) 300
   \<and> rapid 300 (1000, Num 2) two_more_updates
   \<and> (300 :: int) < 2 ^ 31
   \<and> no_functions call_sample (Call 1000 (Num 2) 300 # two_more_updates)
   \<and> last_update (1000, Num 2) two_more_updates = (1250, Num 4)
   \<and> drop (length (published after_settled_hook)) (published after_three_rapid_updates)
       = [(1550, Num 4)]
   \<and> list_all (\<lambda>(t', v'). v' = snd (last_update (1000, Num 2) two_more_updates)
                          \<and> fst (last_update (1000, Num 2) two_more_updates) + 300 \<le> t')
        (drop (length (published after_settled_hook)) (published after_three_rapid_updates))
   \<and> fst (useDebounce call_sample after_three_rapid_updates (Num 4) 300) = Num 4
   \<and> (\<forall>k. \<exists>wk. debounce_run call_sample after_settled_hook
                   (take k (Call 1000 (Num 2) 300 # two_more_updates)) = Some wk
              \<and> length (timers wk) \<le> 1)"
proof -
  have c: "changes after_settled_hook (Num 2) 300"
    by (simp add: changes_def after_settled_hook_def deps_changed_def)
  have r: "rapid 300 (1000, Num 2) two_more_updates" by (simp add: two_more_updates_def)
  have b: "(300 :: int) < 2 ^ 31" by simp
  have nf: "no_functions call_sample (Call 1000 (Num 2) 300 # two_more_updates)"
    by (simp add: two_more_updates_def call_sample_def)
  have l: "last_update (1000, Num 2) two_more_updates = (1250, Num 4)"
    by (simp add: two_more_updates_def)
  have p: "drop (length (published after_settled_hook)) (published after_three_rapid_updates)
             = [(1550, Num 4)]"
    by (simp add: after_settled_hook_def after_three_rapid_updates_def)
  show ?thesis
    using useDebounce_rapid_updates_publish_last
            [OF settled_hook_run three_rapid_updates_run, where v' = "Num 4" and d' = 300]
          settled_hook_run three_rapid_updates_run c r b nf l p
    by simp
qed

text \<open>
  Counterexample to C10 as stated: when the input value is a function, the first value
  the caller observes is what that function returns, not the input value.
\<close>

theorem useDebounce_first_value_of_function:
  "fst (useDebounce call_sample debounce_init (Thunk 7) 300) = Num 7 \<and> Num 7 \<noteq> Thunk 7"
  by (simp add: useDebounce_def useDebounce_render_def useState_def as_arg_def
                call_sample_def debounce_init_def Let_def split: prod.splits)

text \<open>
  C10 (amended): for an input value that is not a function, the first call returns the
  input value at once, with no timer having run; a later call returns what the slot
  holds, so a changed input is not visible before its timer has run.
\<close>

theorem useDebounce_first_value_immediate:
  assumes "call x = None"
  shows "fst (useDebounce call debounce_init x delay) = x
         \<and> published (snd (useDebounce call debounce_init x delay)) = []
         \<and> fst (useDebounce_render call (Some c) x' delay') = debouncedValue c
         \<and> fst (useDebounce call (snd (useDebounce call debounce_init x delay)) x' delay') = x"
  using assms
  by (simp add: useDebounce_def useDebounce_render_def useDebounce_effect_def deps_changed_def
                useState_def as_arg_def setTimeout_def clearTimeout_def debounce_init_def
                Let_def
           split: prod.splits)

text \<open>The amended C10 at the number 5, followed by a call with the number 6.\<close>

theorem useDebounce_first_value_immediate_witness:
  "call_sample (Num 5) = None
   \<and> fst (useDebounce call_sample debounce_init (Num 5) 300) = Num 5
   \<and> fst (useDebounce call_sample (snd (useDebounce call_sample debounce_init (Num 5) 300))
            (Num 6) 300) = Num 5"
proof -
  have p: "call_sample (Num 5) = None" by (simp add: call_sample_def)
  show ?thesis
    using useDebounce_first_value_immediate
            [where call = call_sample and x = "Num 5" and delay = 300
               and x' = "Num 6" and delay' = 300, OF p] p
    by simp
qed


section \<open>Properties of useLocalStorage\<close>

lemma setValue_stored:
  assumes "setValue call codec key st stored x = (v, st', None)"
  shows "\<exists>s. stringify codec x = Inr s \<and> getItem st' key = Inr (Some (to_text s))"
  using assms
  by (auto simp: setValue_def setItem_def getItem_def Let_def split: sum.splits if_splits)

text \<open>
  C5 (amended): for every key and every value \<open>x\<close> that survives serialisation, a
  successful \<^verbatim>\<open>setValue(x)\<close> followed by the first call of a fresh binding with the same
  key yields \<open>x\<close>, whatever the initial value of that binding.
\<close>

theorem useLocalStorage_round_trip:
  assumes "setValue call codec key st stored x = (v, st', None)" and "survives_json codec x"
  shows "useLocalStorage codec st' None key initialValue = x"
proof -
  obtain s where s: "stringify codec x = Inr s" "getItem st' key = Inr (Some (to_text s))"
    using setValue_stored [OF assms(1)] by blast
  then have "to_text s \<noteq> []" "parse codec (to_text s) = Inr x"
    using assms(2) by (simp_all add: survives_json_def)
  then show ?thesis using s(2)
    by (simp add: useLocalStorage_def useLocalStorage_initial_def useState_def)
qed

lemmas js_json_defs = js_json_def js_call_def as_arg_def setState_def js_stringify_def js_parse_def to_text_def empty_storage_def
  setValue_def setItem_def getItem_def useLocalStorage_def useLocalStorage_initial_def
  useState_def survives_json_def Let_def

text \<open>The amended C5 at the value \<^verbatim>\<open>true\<close>, with initial value \<^verbatim>\<open>false\<close> in both
  bindings.\<close>

theorem useLocalStorage_round_trip_witness:
  "setValue js_call js_json ''theme'' empty_storage (Boolean False) (Boolean True)
     = (Boolean True, empty_storage\<lparr>items := (items empty_storage)(''theme'' \<mapsto> ''true'')\<rparr>, None)
   \<and> survives_json js_json (Boolean True)
   \<and> useLocalStorage js_json
        (empty_storage\<lparr>items := (items empty_storage)(''theme'' \<mapsto> ''true'')\<rparr>)
        None ''theme'' (Boolean False) = Boolean True"
proof -
  have a: "setValue js_call js_json ''theme'' empty_storage (Boolean False) (Boolean True)
     = (Boolean True, empty_storage\<lparr>items := (items empty_storage)(''theme'' \<mapsto> ''true'')\<rparr>, None)"
    by (simp add: js_json_defs)
  have b: "survives_json js_json (Boolean True)" by (simp add: js_json_defs)
  show ?thesis using useLocalStorage_round_trip [OF a b, of "Boolean False"] a b by simp
qed

text \<open>
  Counterexample to C5 as stated: \<^verbatim>\<open>setValue(undefined)\<close> succeeds and stores the text
  \<^verbatim>\<open>undefined\<close>; a fresh binding with the same key and the initial value \<^verbatim>\<open>true\<close> fails
  to parse that text and yields \<^verbatim>\<open>true\<close>, not \<^verbatim>\<open>undefined\<close>.
\<close>

theorem useLocalStorage_undefined_not_restored:
  "setValue js_call js_json ''theme'' empty_storage (Boolean True) Undefined
     = (Undefined, empty_storage\<lparr>items := (items empty_storage)(''theme'' \<mapsto> ''undefined'')\<rparr>,
        None)
   \<and> useLocalStorage js_json
        (empty_storage\<lparr>items := (items empty_storage)(''theme'' \<mapsto> ''undefined'')\<rparr>)
        None ''theme'' (Boolean True) = Boolean True
   \<and> Boolean True \<noteq> Undefined"
  by (simp add: js_json_defs)

end
